theory Spec2Isabelle
  imports Complex_Main "HOL-Library.Log_Nat"
begin

section \<open>Python values used by imagepro\<close>

text \<open>
  The exceptions that can leave the modelled functions. \<open>ArgumentTypeError\<close> carries its
  message; the others are the built-in exceptions raised by the arithmetic of
  \<open>resize_image\<close> and by the imaging library.
\<close>

datatype exn = ZeroDivisionError | OverflowError | ValueError | ArgumentTypeError string

subsection \<open>\<open>str\<close> of an integer\<close>

definition digit_char :: "nat \<Rightarrow> char" where
  "digit_char d = ''0123456789'' ! d"

fun str_nat :: "nat \<Rightarrow> string" where
  "str_nat n = (if n < 10 then [digit_char n] else str_nat (n div 10) @ [digit_char (n mod 10)])"

declare str_nat.simps [simp del]

text \<open>
  Python's \<open>str(n)\<close> (and \<open>f"{n}"\<close>) for an \<open>int\<close>: decimal, with a minus sign. The
  interpreter's limit on the number of digits of such a conversion is not modelled.
\<close>

definition str_int :: "int \<Rightarrow> string" where
  "str_int n = (if n < 0 then CHR ''-'' # str_nat (nat (- n)) else str_nat (nat n))"

text \<open>Reading a decimal string back; used to show that \<open>str_int\<close> loses nothing.\<close>

definition digit_val :: "char \<Rightarrow> nat" where
  "digit_val c = of_char c - 48"

definition nat_of_digits :: "string \<Rightarrow> nat" where
  "nat_of_digits s = foldl (\<lambda>acc c. 10 * acc + digit_val c) 0 s"

definition int_of_decimal :: "string \<Rightarrow> int" where
  "int_of_decimal s =
     (case s of [] \<Rightarrow> 0
      | c # cs \<Rightarrow> if c = CHR ''-'' then - int (nat_of_digits cs) else int (nat_of_digits s))"

subsection \<open>Binary64 floating point\<close>

text \<open>
  A Python \<open>float\<close> is an IEEE 754 binary64 number. A finite one is the rational it
  denotes; arithmetic is the exact operation followed by rounding to the nearest
  representable number, ties to the even significand (\<open>fl\<close>). \<open>binade q\<close> is the exponent
  \<open>e\<close> with \<open>2^e \<le> |q| < 2^(e+1)\<close>; the spacing of representable numbers around \<open>q\<close> is
  \<open>2^(e-52)\<close>, and \<open>2^(-1074)\<close> in the subnormal range.
\<close>

definition binade :: "rat \<Rightarrow> int" where
  "binade q = (let (n, d) = quotient_of \<bar>q\<bar>; k = bitlen n - bitlen d
               in if 2 powi k \<le> \<bar>q\<bar> then k else k - 1)"

definition ulp :: "rat \<Rightarrow> rat" where
  "ulp q = 2 powi (max (binade q) (- 1022) - 52)"

definition round_half_even :: "rat \<Rightarrow> int" where
  "round_half_even x =
     (let f = \<lfloor>x\<rfloor>; r = x - of_int f
      in if r < 1 / 2 then f else if 1 / 2 < r then f + 1 else if even f then f else f + 1)"

definition fl :: "rat \<Rightarrow> rat" where
  "fl q = (if q = 0 then 0 else of_int (round_half_even (q / ulp q)) * ulp q)"

text \<open>
  A float is finite or an infinity. Only multiplication can produce an infinity here
  (Python's float multiplication overflows silently), and the only thing done with it is
  \<open>int(...)\<close>, which raises for either sign, so the sign is not kept.
\<close>

datatype pyfloat = Finite rat | Infinity

definition overflows :: "rat \<Rightarrow> bool" where
  "overflows x \<longleftrightarrow> 2 ^ 1024 \<le> \<bar>x\<bar>"

text \<open>\<open>a / b\<close> on two \<open>int\<close>s: correctly rounded true division.\<close>

definition truediv :: "int \<Rightarrow> int \<Rightarrow> exn + pyfloat" where
  "truediv a b =
     (if b = 0 then Inl ZeroDivisionError
      else let x = fl (of_int a / of_int b)
           in if overflows x then Inl OverflowError else Inr (Finite x))"

text \<open>The implicit conversion of an \<open>int\<close> operand to \<open>float\<close>.\<close>

definition float_of_int :: "int \<Rightarrow> exn + rat" where
  "float_of_int n = (let x = fl (of_int n) in if overflows x then Inl OverflowError else Inr x)"

text \<open>\<open>x * n\<close> for a float \<open>x\<close> and an \<open>int\<close> \<open>n\<close>.\<close>

definition float_mul_int :: "pyfloat \<Rightarrow> int \<Rightarrow> exn + pyfloat" where
  "float_mul_int x n =
     (case float_of_int n of
        Inl e \<Rightarrow> Inl e
      | Inr y \<Rightarrow>
          (case x of
             Infinity \<Rightarrow> Inr Infinity
           | Finite v \<Rightarrow> let p = fl (v * y) in Inr (if overflows p then Infinity else Finite p)))"

text \<open>\<open>int(x)\<close> for a float: truncation toward zero, \<open>OverflowError\<close> on an infinity.\<close>

definition int_of_float :: "pyfloat \<Rightarrow> exn + int" where
  "int_of_float x =
     (case x of
        Infinity \<Rightarrow> Inl OverflowError
      | Finite v \<Rightarrow> Inr (if 0 \<le> v then \<lfloor>v\<rfloor> else \<lceil>v\<rceil>))"

section \<open>The dimension arithmetic of \<open>resize_image\<close>\<close>

text \<open>\<open>int((size / a) * b)\<close>, the expression of lines 84 and 90.\<close>

definition scaled :: "int \<Rightarrow> int \<Rightarrow> int \<Rightarrow> exn + int" where
  "scaled size' a b =
     (case truediv size' a of
        Inl e \<Rightarrow> Inl e
      | Inr r \<Rightarrow> (case float_mul_int r b of Inl e \<Rightarrow> Inl e | Inr p \<Rightarrow> int_of_float p))"

text \<open>
  Lines 79 to 90: either the target is skipped with a reason, or the pair
  \<open>(new_width, new_height)\<close> is computed.
\<close>

datatype resolution = Skip string | Dims int int

definition new_dimensions :: "string \<Rightarrow> int \<Rightarrow> int \<Rightarrow> int \<Rightarrow> exn + resolution" where
  "new_dimensions dimension orig_width orig_height size' =
     (if dimension = ''width'' then
        if size' > orig_width then
          Inr (Skip (''original is only '' @ str_int orig_width @ ''px wide''))
        else (case scaled size' orig_width orig_height of
                Inl e \<Rightarrow> Inl e
              | Inr new_height \<Rightarrow> Inr (Dims size' new_height))
      else
        if size' > orig_height then
          Inr (Skip (''original is only '' @ str_int orig_height @ ''px tall''))
        else (case scaled size' orig_height orig_width of
                Inl e \<Rightarrow> Inl e
              | Inr new_width \<Rightarrow> Inr (Dims new_width size')))"

section \<open>The imaging library, as far as \<open>resize_image\<close> uses it\<close>

text \<open>
  Pillow is not part of the repository. An image is modelled by what the code reads from
  it, its mode and its size, together with a term that records which library calls
  produced its pixels. The calls keep Pillow's documented contracts: \<open>Image.new\<close> and
  \<open>convert\<close> give the requested mode, \<open>resize\<close> the requested size and the mode of its
  argument, \<open>paste\<close> changes only the pixels of the image pasted into, and \<open>resize\<close>
  refuses a size with a dimension below 1 (\<open>ValueError: height and width must be > 0\<close>).
\<close>

datatype buffer =
    Source string
  | Resampled buffer int int string
  | Converted buffer string
  | Solid "nat \<times> nat \<times> nat"
  | Band buffer
  | Pasted buffer buffer "buffer option"

record image =
  im_mode :: string
  im_size :: "int \<times> int"
  im_data :: buffer

definition Image_new :: "string \<Rightarrow> int \<times> int \<Rightarrow> nat \<times> nat \<times> nat \<Rightarrow> image" where
  "Image_new mode size' color = \<lparr>im_mode = mode, im_size = size', im_data = Solid color\<rparr>"

definition convert :: "image \<Rightarrow> string \<Rightarrow> image" where
  "convert im mode =
     \<lparr>im_mode = mode, im_size = im_size im, im_data = Converted (im_data im) mode\<rparr>"

text \<open>\<open>im.split()[-1]\<close>: the last band, a single-channel image of the same size.\<close>

definition last_band :: "image \<Rightarrow> image" where
  "last_band im = \<lparr>im_mode = ''L'', im_size = im_size im, im_data = Band (im_data im)\<rparr>"

definition paste :: "image \<Rightarrow> image \<Rightarrow> image option \<Rightarrow> image" where
  "paste background im mask' =
     background\<lparr>im_data := Pasted (im_data background) (im_data im) (map_option im_data mask')\<rparr>"

definition resize :: "image \<Rightarrow> int \<times> int \<Rightarrow> string \<Rightarrow> exn + image" where
  "resize im size' resample =
     (case size' of (w, h) \<Rightarrow>
        if w < 1 \<or> h < 1 then Inl ValueError
        else Inr \<lparr>im_mode = im_mode im, im_size = (w, h),
                  im_data = Resampled (im_data im) w h resample\<rparr>)"

section \<open>The world outside the process\<close>

text \<open>
  What the process writes: lines on standard error, directories made, files saved
  (directory, file name, image, quality, in the order of the calls). What it reads: the
  result of \<open>Image.open\<close> (the text of the exception, or the image) and the length in
  bytes of a file the encoder wrote. \<open>Image.open\<close> is not silent either: for a source
  above its limit of 89478485 pixels the library issues a \<open>DecompressionBombWarning\<close>,
  which Python prints on standard error while the call runs. The lines the library
  prints during \<open>Image.open\<close> are the third parameter. What the other library calls
  may print is not modelled, and nothing is proved of it. The file system calls
  themselves (\<open>mkdir\<close>, \<open>save\<close>, \<open>getsize\<close>) are taken to succeed.
\<close>

record world =
  w_stderr :: "string list"
  w_dirs :: "string list"
  w_files :: "(string \<times> string \<times> image \<times> int) list"

record pypath =
  path_str :: string
  stem :: string
  suffix :: string

record env =
  image_open :: "pypath \<Rightarrow> string + image"
  open_stderr :: "pypath \<Rightarrow> string list"
  encoded_bytes :: "image \<Rightarrow> int \<Rightarrow> nat"

definition print_stderr :: "string \<Rightarrow> world \<Rightarrow> world" where
  "print_stderr line w = w\<lparr>w_stderr := w_stderr w @ [line]\<rparr>"

text \<open>Lines that a library call prints on standard error.\<close>

definition library_prints :: "string list \<Rightarrow> world \<Rightarrow> world" where
  "library_prints lines w = w\<lparr>w_stderr := w_stderr w @ lines\<rparr>"

definition mkdir :: "string \<Rightarrow> world \<Rightarrow> world" where
  "mkdir d w = w\<lparr>w_dirs := w_dirs w @ [d]\<rparr>"

definition save :: "image \<Rightarrow> string \<times> string \<Rightarrow> int \<Rightarrow> world \<Rightarrow> world" where
  "save im output_path quality w =
     w\<lparr>w_files := w_files w @ [(fst output_path, snd output_path, im, quality)]\<rparr>"

text \<open>
  \<open>get_file_size_kb\<close>, lines 35 to 37, applied to the file just saved from \<open>im\<close>:
  \<open>os.path.getsize(filepath) / 1024\<close>.
\<close>

definition get_file_size_kb :: "env \<Rightarrow> image \<Rightarrow> int \<Rightarrow> exn + pyfloat" where
  "get_file_size_kb e im quality = truediv (int (encoded_bytes e im quality)) 1024"

section \<open>\<open>resize_image\<close>\<close>

text \<open>Lines 100 to 108: the conversion of the resized image to mode RGB.\<close>

definition flatten_to_rgb :: "image \<Rightarrow> image" where
  "flatten_to_rgb resized_img =
     (if im_mode resized_img \<in> set [''RGBA'', ''LA'', ''P''] then
        let background = Image_new ''RGB'' (im_size resized_img) (255, 255, 255);
            resized_img' =
              (if im_mode resized_img = ''P'' then convert resized_img ''RGBA''
               else resized_img);
            mask' =
              (if im_mode resized_img' \<in> set [''RGBA'', ''LA'']
               then Some (last_band resized_img') else None)
        in paste background resized_img' mask'
      else if im_mode resized_img \<noteq> ''RGB'' then convert resized_img ''RGB''
      else resized_img)"

text \<open>Line 96.\<close>

definition output_filename :: "string \<Rightarrow> string \<Rightarrow> int \<Rightarrow> string" where
  "output_filename base_name extension size' = base_name @ ''_'' @ str_int size' @ extension"

text \<open>The dictionary appended to \<open>created_files\<close>, lines 116 to 122.\<close>

record created_file =
  cf_path :: "string \<times> string"
  cf_filename :: string
  cf_width :: int
  cf_height :: int
  cf_size_kb :: pyfloat

text \<open>The variables fixed before the loop, lines 54 to 71, and the arguments it reads.\<close>

record locals =
  l_img :: image
  l_orig_width :: int
  l_orig_height :: int
  l_output_dir :: string
  l_base_name :: string
  l_extension :: string
  l_dimension :: string
  l_quality :: int

text \<open>
  Lines 92 to 122, the part of the loop body after the dimensions are known. An
  exception leaves with the world as it is at that point.
\<close>

definition produce ::
  "env \<Rightarrow> locals \<Rightarrow> int \<Rightarrow> int \<Rightarrow> int \<Rightarrow> world \<Rightarrow> exn \<times> world + created_file \<times> world" where
  "produce e l size' new_width new_height w =
     (case resize (l_img l) (new_width, new_height) ''LANCZOS'' of
        Inl x \<Rightarrow> Inl (x, w)
      | Inr resized_img \<Rightarrow>
          let filename = output_filename (l_base_name l) (l_extension l) size';
              output_path = (l_output_dir l, filename);
              normalized = flatten_to_rgb resized_img;
              w' = save normalized output_path (l_quality l) w
          in (case get_file_size_kb e normalized (l_quality l) of
                Inl x \<Rightarrow> Inl (x, w')
              | Inr file_size \<Rightarrow>
                  Inr (\<lparr>cf_path = output_path, cf_filename = filename,
                        cf_width = new_width, cf_height = new_height,
                        cf_size_kb = file_size\<rparr>, w')))"

type_synonym results = "created_file list \<times> (int \<times> string) list"

text \<open>The loop of lines 77 to 122 over the remaining sizes.\<close>

fun process_sizes ::
  "env \<Rightarrow> locals \<Rightarrow> int list \<Rightarrow> results \<Rightarrow> world \<Rightarrow> exn \<times> world + results \<times> world" where
  "process_sizes e l [] acc w = Inr (acc, w)"
| "process_sizes e l (size' # rest) acc w =
     (case new_dimensions (l_dimension l) (l_orig_width l) (l_orig_height l) size' of
        Inl x \<Rightarrow> Inl (x, w)
      | Inr (Skip reason) \<Rightarrow>
          process_sizes e l rest (fst acc, snd acc @ [(size', reason)]) w
      | Inr (Dims new_width new_height) \<Rightarrow>
          (case produce e l size' new_width new_height w of
             Inl xw \<Rightarrow> Inl xw
           | Inr (created, w') \<Rightarrow>
               process_sizes e l rest (fst acc @ [created], snd acc) w'))"

text \<open>
  How a call ends: it returns a value, an exception propagates to the caller, or
  \<open>sys.exit\<close> ends the process with a status.
\<close>

datatype 'a outcome = Returned 'a | Raised exn | Exited int

definition resize_image ::
  "env \<Rightarrow> pypath \<Rightarrow> string \<Rightarrow> int list \<Rightarrow> string \<Rightarrow> int \<Rightarrow> world \<Rightarrow> results outcome \<times> world" where
  "resize_image e input_path output_dir sizes dimension quality w =
     (let w0 = library_prints (open_stderr e input_path) w
      in case image_open e input_path of
           Inl details \<Rightarrow>
             (Exited 4,
              print_stderr (''Details: '' @ details)
                (print_stderr (''Error: Cannot read image: '' @ path_str input_path) w0))
         | Inr img \<Rightarrow>
             let l = \<lparr>l_img = img, l_orig_width = fst (im_size img),
                      l_orig_height = snd (im_size img), l_output_dir = output_dir,
                      l_base_name = stem input_path, l_extension = suffix input_path,
                      l_dimension = dimension, l_quality = quality\<rparr>
             in (case process_sizes e l sizes ([], []) (mkdir output_dir w0) of
                   Inl (x, w') \<Rightarrow> (Raised x, w')
                 | Inr (res, w') \<Rightarrow> (Returned res, w')))"

section \<open>\<open>parse_sizes\<close>\<close>

text \<open>\<open>str.split(',')\<close>: never empty, empty pieces are kept.\<close>

fun split_on :: "char \<Rightarrow> string \<Rightarrow> string list" where
  "split_on c [] = [[]]"
| "split_on c (x # xs) =
     (if x = c then [] # split_on c xs
      else (case split_on c xs of [] \<Rightarrow> [[x]] | t # ts \<Rightarrow> (x # t) # ts))"

text \<open>\<open>str.strip()\<close> on ASCII text: the characters for which \<open>isspace\<close> holds.\<close>

definition is_space :: "char \<Rightarrow> bool" where
  "is_space c \<longleftrightarrow> (of_char c :: nat) \<in> set [9, 10, 11, 12, 13, 28, 29, 30, 31, 32]"

definition strip :: "string \<Rightarrow> string" where
  "strip s = rev (dropWhile is_space (rev (dropWhile is_space s)))"

text \<open>The list comprehension of line 19: the first element that raises ends it.\<close>

fun parse_all :: "(string \<Rightarrow> string + int) \<Rightarrow> string list \<Rightarrow> string + int list" where
  "parse_all int_of_str [] = Inr []"
| "parse_all int_of_str (s # ss) =
     (case int_of_str (strip s) of
        Inl msg \<Rightarrow> Inl msg
      | Inr n \<Rightarrow> (case parse_all int_of_str ss of Inl msg \<Rightarrow> Inl msg | Inr ns \<Rightarrow> Inr (n # ns)))"

text \<open>
  Lines 16 to 24. The built-in \<open>int\<close> on text is the parameter \<open>int_of_str\<close>; \<open>Inl\<close> carries
  the message of the \<open>ValueError\<close> it raises.
\<close>

definition parse_sizes :: "(string \<Rightarrow> string + int) \<Rightarrow> string \<Rightarrow> exn + int list" where
  "parse_sizes int_of_str size_str =
     (case parse_all int_of_str (split_on CHR '','' size_str) of
        Inl msg \<Rightarrow> Inl (ArgumentTypeError (''Invalid size format: '' @ msg))
      | Inr sizes \<Rightarrow>
          if list_ex (\<lambda>s. s \<le> 0) sizes
          then Inl (ArgumentTypeError
                     (''Invalid size format: '' @ ''Sizes must be positive integers''))
          else Inr sizes)"

text \<open>
  A reading of \<open>int\<close> on plain decimal literals (an optional sign, then digits), enough
  to run \<open>parse_sizes\<close> on concrete text.
\<close>

definition is_digit :: "char \<Rightarrow> bool" where
  "is_digit c \<longleftrightarrow> 48 \<le> (of_char c :: nat) \<and> (of_char c :: nat) \<le> 57"

definition decimal_literal :: "string \<Rightarrow> string + int" where
  "decimal_literal s =
     (let body = (case s of [] \<Rightarrow> [] | c # cs \<Rightarrow> if c = CHR ''-'' \<or> c = CHR ''+'' then cs else s)
      in if body \<noteq> [] \<and> list_all is_digit body
         then Inr (if s \<noteq> [] \<and> hd s = CHR ''-'' then - int (nat_of_digits body)
                   else int (nat_of_digits body))
         else Inl (''invalid literal for int() with base 10: '' @ s))"

section \<open>Vocabulary of the properties\<close>

text \<open>
  A target exceeds the original when it is larger than the original dimension on the
  chosen axis: the test of lines 80 and 86.
\<close>

definition exceeds_original :: "string \<Rightarrow> int \<times> int \<Rightarrow> int \<Rightarrow> bool" where
  "exceeds_original dimension orig size' =
     (if dimension = ''width'' then size' > fst orig else size' > snd orig)"

text \<open>The dimension of a created record on the chosen axis.\<close>

definition constrained :: "string \<Rightarrow> created_file \<Rightarrow> int" where
  "constrained dimension r = (if dimension = ''width'' then cf_width r else cf_height r)"

text \<open>The reason recorded with a skipped target, lines 81 and 87.\<close>

definition skip_reason :: "string \<Rightarrow> int \<times> int \<Rightarrow> string" where
  "skip_reason dimension orig =
     (if dimension = ''width'' then ''original is only '' @ str_int (fst orig) @ ''px wide''
      else ''original is only '' @ str_int (snd orig) @ ''px tall'')"

subsection \<open>Concrete surroundings for running the model\<close>

definition photo :: pypath where
  "photo = \<lparr>path_str = ''photo.jpg'', stem = ''photo'', suffix = ''.jpg''\<rparr>"

text \<open>
  An environment in which every path opens, without a warning, as an image of the given
  size and mode.
\<close>

definition studio :: "int \<Rightarrow> int \<Rightarrow> string \<Rightarrow> env" where
  "studio w h m =
     \<lparr>image_open = (\<lambda>p. Inr \<lparr>im_mode = m, im_size = (w, h), im_data = Source (path_str p)\<rparr>),
      open_stderr = (\<lambda>p. []),
      encoded_bytes = (\<lambda>im q. 2048)\<rparr>"

text \<open>An environment in which no file can be decoded.\<close>

definition unreadable :: env where
  "unreadable =
     \<lparr>image_open = (\<lambda>p. Inl ''cannot identify image file''),
      open_stderr = (\<lambda>p. []),
      encoded_bytes = (\<lambda>im q. 0)\<rparr>"

text \<open>
  An environment in which every path opens as a 10000 by 9000 image: 90000000 pixels,
  above the library's limit, so the library warns while it opens it. The two lines are
  the warning as Python prints it, without the file name and line number it puts in
  front.
\<close>

definition vast_studio :: env where
  "vast_studio =
     \<lparr>image_open =
        (\<lambda>p. Inr \<lparr>im_mode = ''RGB'', im_size = (10000, 9000), im_data = Source (path_str p)\<rparr>),
      open_stderr =
        (\<lambda>p. [''DecompressionBombWarning: Image size (90000000 pixels) exceeds limit of ''
               @ ''89478485 pixels, could be decompression bomb DOS attack.'',
              ''  warnings.warn('']),
      encoded_bytes = (\<lambda>im q. 2048)\<rparr>"

definition empty_world :: world where
  "empty_world = \<lparr>w_stderr = [], w_dirs = [], w_files = []\<rparr>"

text \<open>A resized image of the given mode, as it reaches the conversion to RGB.\<close>

definition shot :: "string \<Rightarrow> image" where
  "shot m =
     \<lparr>im_mode = m, im_size = (400, 300),
      im_data = Resampled (Source ''photo.jpg'') 400 300 ''LANCZOS''\<rparr>"

section \<open>Rounding to binary64\<close>

lemma rhe_bounds: "\<bar>of_int (round_half_even x) - x\<bar> \<le> 1 / 2"
proof -
  have "of_int \<lfloor>x\<rfloor> \<le> x" "x < of_int \<lfloor>x\<rfloor> + 1" by linarith+
  then show ?thesis
    unfolding round_half_even_def Let_def by (auto simp: abs_le_iff)
qed

lemma rhe_eqI:
  assumes "\<bar>x - of_int n\<bar> < 1 / 2"
  shows "round_half_even x = n"
proof -
  have lo: "of_int n - 1 / 2 < x" and hi: "x < of_int n + 1 / 2"
    using assms by linarith+
  have "n - 1 \<le> \<lfloor>x\<rfloor>" using lo by (simp add: le_floor_iff) 
  moreover have "\<lfloor>x\<rfloor> \<le> n" using hi by (simp add: floor_le_iff)
  ultimately consider "\<lfloor>x\<rfloor> = n" | "\<lfloor>x\<rfloor> = n - 1" by linarith
  then show ?thesis
  proof cases
    case 1
    then show ?thesis using hi unfolding round_half_even_def Let_def by simp
  next
    case 2
    then show ?thesis using lo unfolding round_half_even_def Let_def by simp
  qed
qed

lemma rhe_of_int: "round_half_even (of_int n) = n"
  by (rule rhe_eqI) simp

lemma pow2_bitlen:
  assumes "0 < n"
  shows "(2::rat) powi (bitlen n - 1) \<le> of_int n" and "of_int n < (2::rat) powi bitlen n"
proof -
  have b: "2 ^ nat (bitlen n - 1) \<le> n" "n < 2 ^ nat (bitlen n)"
    using bitlen_bounds [OF assms] by auto
  have pos: "1 \<le> bitlen n" using assms bitlen_nonneg [of n] bitlen_eq_zero_iff [of n] by linarith
  have "(of_int (2 ^ nat (bitlen n - 1)) :: rat) \<le> of_int n" using b(1) by (simp only: of_int_le_iff)
  then show "(2::rat) powi (bitlen n - 1) \<le> of_int n"
    using pos by (simp add: power_int_nonneg_exp)
  have "(of_int n :: rat) < of_int (2 ^ nat (bitlen n))" using b(2) by (simp only: of_int_less_iff)
  then show "of_int n < (2::rat) powi bitlen n"
    using pos by (simp add: power_int_nonneg_exp)
qed

lemma binade_bounds:
  assumes "q \<noteq> 0"
  shows "2 powi binade q \<le> \<bar>q\<bar>" and "\<bar>q\<bar> < 2 powi (binade q + 1)"
proof -
  obtain n d where nd: "quotient_of \<bar>q\<bar> = (n, d)" by (cases "quotient_of \<bar>q\<bar>")
  have d: "0 < d" using nd by (rule quotient_of_denom_pos)
  have q: "\<bar>q\<bar> = of_int n / of_int d" using nd by (rule quotient_of_div)
  have n: "0 < n"
  proof -
    have "0 < \<bar>q\<bar>" using assms by simp
    then have "0 < (of_int n :: rat) / of_int d" using q by simp
    then show ?thesis using d by (simp add: zero_less_divide_iff)
  qed
  define k where "k = bitlen n - bitlen d"
  have dr: "(0::rat) < of_int d" using d by simp
  have lo: "2 powi (k - 1) < \<bar>q\<bar>"
  proof -
    have "(2::rat) powi (k - 1) * of_int d < 2 powi (k - 1) * 2 powi bitlen d"
      using pow2_bitlen(2) [OF d] by (simp add: mult_strict_left_mono)
    also have "\<dots> = 2 powi (bitlen n - 1)"
      unfolding k_def by (simp add: power_int_add [symmetric])
    also have "\<dots> \<le> of_int n" using pow2_bitlen(1) [OF n] .
    finally show ?thesis using dr unfolding q by (simp add: pos_less_divide_eq)
  qed
  have hi: "\<bar>q\<bar> < 2 powi (k + 1)"
  proof -
    have "(of_int n :: rat) < 2 powi bitlen n" using pow2_bitlen(2) [OF n] .
    also have "\<dots> = 2 powi (k + 1) * 2 powi (bitlen d - 1)"
      unfolding k_def by (simp add: power_int_add [symmetric])
    also have "\<dots> \<le> 2 powi (k + 1) * of_int d"
      using pow2_bitlen(1) [OF d] by (simp add: mult_left_mono)
    finally show ?thesis using dr unfolding q by (simp add: pos_divide_less_eq)
  qed
  have b: "binade q = (if 2 powi k \<le> \<bar>q\<bar> then k else k - 1)"
    unfolding binade_def nd k_def by (simp add: Let_def)
  show "2 powi binade q \<le> \<bar>q\<bar>" using lo unfolding b by auto
  show "\<bar>q\<bar> < 2 powi (binade q + 1)" using hi unfolding b by auto
qed

lemma pow2_less_exp:
  assumes "(2::rat) powi a < 2 powi b"
  shows "a < b"
proof (rule ccontr)
  assume "\<not> a < b"
  then have "(2::rat) powi b \<le> 2 powi a" by (intro power_int_increasing) auto
  then show False using assms by linarith
qed

lemma binade_eqI:
  assumes "2 powi e \<le> \<bar>q\<bar>" and "\<bar>q\<bar> < 2 powi (e + 1)"
  shows "binade q = e"
proof -
  have q: "q \<noteq> 0"
  proof
    assume "q = 0"
    then have "(2::rat) powi e \<le> 0" using assms(1) by simp
    moreover have "(0::rat) < 2 powi e" by simp
    ultimately show False by linarith
  qed
  note b = binade_bounds [OF q]
  have "(2::rat) powi e < 2 powi (binade q + 1)" using assms(1) b(2) by linarith
  then have 1: "e < binade q + 1" by (rule pow2_less_exp)
  have "(2::rat) powi binade q < 2 powi (e + 1)" using assms(2) b(1) by linarith
  then have 2: "binade q < e + 1" by (rule pow2_less_exp)
  show ?thesis using 1 2 by linarith
qed

lemma ulp_pos: "0 < ulp q"
  by (simp add: ulp_def)

lemma fl_error: "\<bar>fl q - q\<bar> \<le> ulp q / 2"
proof (cases "q = 0")
  case True
  then show ?thesis using ulp_pos [of q] by (simp add: fl_def)
next
  case False
  have u: "0 < ulp q" by (rule ulp_pos)
  have "\<bar>of_int (round_half_even (q / ulp q)) - q / ulp q\<bar> \<le> 1 / 2" by (rule rhe_bounds)
  then have "\<bar>of_int (round_half_even (q / ulp q)) - q / ulp q\<bar> * ulp q \<le> 1 / 2 * ulp q"
    using u by (simp add: mult_right_mono)
  moreover have "\<bar>of_int (round_half_even (q / ulp q)) - q / ulp q\<bar> * ulp q
      = \<bar>of_int (round_half_even (q / ulp q)) * ulp q - q\<bar>"
  proof -
    have "\<bar>of_int (round_half_even (q / ulp q)) - q / ulp q\<bar> * ulp q
        = \<bar>(of_int (round_half_even (q / ulp q)) - q / ulp q) * ulp q\<bar>"
      using u by (simp add: abs_mult)
    also have "(of_int (round_half_even (q / ulp q)) - q / ulp q) * ulp q
        = of_int (round_half_even (q / ulp q)) * ulp q - q"
      using u by (simp add: left_diff_distrib)
    finally show ?thesis .
  qed
  ultimately show ?thesis using False by (simp add: fl_def)
qed

lemma ulp_le:
  assumes "2 powi (- 1022) \<le> \<bar>q\<bar>"
  shows "ulp q \<le> \<bar>q\<bar> / 2 ^ 52"
proof -
  have q: "q \<noteq> 0"
  proof
    assume "q = 0"
    then have "(2::rat) powi (- 1022) \<le> 0" using assms by simp
    moreover have "(0::rat) < 2 powi (- 1022)" by (rule zero_less_power_int) simp
    ultimately show False by linarith
  qed
  have "(2::rat) powi (max (binade q) (- 1022)) \<le> \<bar>q\<bar>"
    using binade_bounds(1) [OF q] assms by (simp add: max_def)
  then have "(2::rat) powi (max (binade q) (- 1022)) / 2 ^ 52 \<le> \<bar>q\<bar> / 2 ^ 52"
    by (simp add: divide_right_mono)
  moreover have "ulp q = (2::rat) powi (max (binade q) (- 1022)) / 2 ^ 52"
    unfolding ulp_def by (simp add: power_int_diff)
  ultimately show ?thesis by simp
qed

lemma fl_rel_error:
  assumes "2 powi (- 1022) \<le> \<bar>q\<bar>"
  shows "\<bar>fl q - q\<bar> \<le> \<bar>q\<bar> / 2 ^ 53"
proof -
  have "\<bar>fl q - q\<bar> \<le> ulp q / 2" by (rule fl_error)
  also have "\<dots> \<le> (\<bar>q\<bar> / 2 ^ 52) / 2" using ulp_le [OF assms] by simp
  also have "\<dots> = \<bar>q\<bar> / 2 ^ 53" by simp
  finally show ?thesis .
qed

lemma fl_representable:
  assumes n: "\<bar>n\<bar> < 2 ^ 53" and k: "- 1074 \<le> k"
  shows "fl (of_int n * 2 powi k) = of_int n * 2 powi k"
proof (cases "n = 0")
  case True
  then show ?thesis by (simp add: fl_def)
next
  case False
  define q :: rat where "q = of_int n * 2 powi k"
  have q0: "q \<noteq> 0" using False by (simp add: q_def)
  define u where "u = max (binade q) (- 1022) - 52"
  have "\<bar>q\<bar> = of_int \<bar>n\<bar> * 2 powi k" by (simp add: q_def abs_mult)
  also have "\<dots> < 2 ^ 53 * 2 powi k"
  proof -
    have "(of_int \<bar>n\<bar> :: rat) < of_int (2 ^ 53)" using n by (simp only: of_int_less_iff)
    then show ?thesis by (simp add: mult_strict_right_mono)
  qed
  also have "\<dots> = 2 powi (53 + k)" by (simp add: power_int_add)
  finally have "\<bar>q\<bar> < 2 powi (53 + k)" .
  then have "(2::rat) powi binade q < 2 powi (53 + k)"
    using binade_bounds(1) [OF q0] by linarith
  then have "binade q < 53 + k" by (rule pow2_less_exp)
  then have uk: "u \<le> k" using k by (simp add: u_def)
  have ulp: "ulp q = 2 powi u" by (simp add: ulp_def u_def)
  have "q / ulp q = q / 2 powi u" by (simp only: ulp)
  also have "\<dots> = of_int n * 2 powi (k - u)"
    unfolding q_def by (simp add: power_int_diff)
  also have "\<dots> = of_int (n * 2 ^ nat (k - u))"
    using uk by (simp add: power_int_nonneg_exp)
  finally have "round_half_even (q / ulp q) = n * 2 ^ nat (k - u)"
    by (simp only: rhe_of_int)
  then have "fl q = of_int (n * 2 ^ nat (k - u)) * 2 powi u"
    using q0 by (simp add: fl_def ulp)
  also have "\<dots> = of_int n * (2 powi (k - u) * 2 powi u)"
    using uk by (simp add: power_int_nonneg_exp)
  also have "2 powi (k - u) * 2 powi u = (2::rat) powi k"
    by (simp add: power_int_add [symmetric])
  finally show ?thesis unfolding q_def .
qed

lemma fl_of_int:
  assumes "\<bar>n\<bar> < 2 ^ 53"
  shows "fl (of_int n) = of_int n"
  using fl_representable [OF assms, of 0] by simp

lemma fl_eqI:
  assumes lo: "2 powi e \<le> \<bar>q\<bar>" and hi: "\<bar>q\<bar> < 2 powi (e + 1)"
    and e: "- 1022 \<le> e"
    and n: "\<bar>q / 2 powi (e - 52) - of_int n\<bar> < 1 / 2"
  shows "fl q = of_int n * 2 powi (e - 52)"
proof -
  have b: "binade q = e" using lo hi by (rule binade_eqI)
  have q0: "q \<noteq> 0"
  proof
    assume "q = 0"
    then have "(2::rat) powi e \<le> 0" using lo by simp
    moreover have "(0::rat) < 2 powi e" by simp
    ultimately show False by linarith
  qed
  have u: "ulp q = 2 powi (e - 52)" using e by (simp add: ulp_def b max_def)
  have "round_half_even (q / ulp q) = n" unfolding u using n by (rule rhe_eqI)
  then show ?thesis using q0 by (simp add: fl_def u)
qed

lemma scaled_same:
  assumes a: "a \<noteq> 0" and b: "\<bar>b\<bar> < 2 ^ 53"
  shows "scaled a a b = Inr b"
proof -
  have one: "fl 1 = 1" using fl_of_int [of 1] by simp
  have t: "truediv a a = Inr (Finite 1)"
    using a by (simp add: truediv_def one overflows_def)
  have fb: "fl (of_int b) = of_int b" using b by (rule fl_of_int)
  have "(of_int \<bar>b\<bar> :: rat) < of_int (2 ^ 53)" using b by (simp only: of_int_less_iff)
  then have nb: "\<not> overflows (of_int b)" by (simp add: overflows_def)
  have m: "float_mul_int (Finite 1) b = Inr (Finite (of_int b))"
    using nb by (simp add: float_mul_int_def float_of_int_def fb)
  show ?thesis by (simp add: scaled_def t m int_of_float_def)
qed

lemma tiny_le: "(2::rat) powi (- 1022) \<le> 1 / 2 ^ 51"
proof -
  have "(2::rat) powi (- 1022) \<le> 2 powi (- 51)" by (intro power_int_increasing) auto
  then show ?thesis by (simp add: power_int_minus_divide)
qed

lemma scaled_feasible:
  assumes a: "1 \<le> a" and ab: "a \<le> b" and c: "1 \<le> c" and bc: "b * c < 2 ^ 50"
  defines "f \<equiv> fl (fl (of_int a / of_int b) * of_int c)"
  shows "scaled a b c = Inr \<lfloor>f\<rfloor>"
    and "(a * c) div b - 1 \<le> \<lfloor>f\<rfloor>"
    and "\<lfloor>f\<rfloor> \<le> (a * c) div b"
    and "a * c \<le> (\<lfloor>f\<rfloor> + 1) * b"
proof -
  define A B C :: rat where "A = of_int a" and "B = of_int b" and "C = of_int c"
  define eps :: rat where "eps = 1 / 2 ^ 53"
  define r where "r = A / B"
  define r1 where "r1 = fl r"
  define p where "p = r1 * C"
  define x where "x = r * C"
  have f: "f = fl p" by (simp add: f_def p_def r1_def r_def A_def B_def C_def)
  have A1: "1 \<le> A" and AB: "A \<le> B" and C1: "1 \<le> C"
    using a ab c by (simp_all add: A_def B_def C_def)
  have B1: "1 \<le> B" using A1 AB by linarith
  have b50: "b < 2 ^ 50"
  proof -
    have "b * 1 \<le> b * c" using a ab c by (intro mult_left_mono) auto
    then show ?thesis using bc by simp
  qed
  have c50: "c < 2 ^ 50"
  proof -
    have "1 * c \<le> b * c" using a ab c by (intro mult_right_mono) auto
    then show ?thesis using bc by simp
  qed
  have ac50: "a * c < 2 ^ 50"
  proof -
    have "a * c \<le> b * c" using ab c by (intro mult_right_mono) auto
    then show ?thesis using bc by simp
  qed
  have B50: "B < 2 ^ 50"
  proof -
    have "(of_int b :: rat) < of_int (2 ^ 50)" using b50 by (simp only: of_int_less_iff)
    then show ?thesis by (simp add: B_def)
  qed
  have AC50: "A * C < 2 ^ 50"
  proof -
    have "(of_int (a * c) :: rat) < of_int (2 ^ 50)" using ac50 by (simp only: of_int_less_iff)
    then show ?thesis by (simp add: A_def C_def)
  qed
  have eps: "0 < eps" "eps \<le> 1 / 2" by (simp_all add: eps_def)
  have rB: "r * B = A" using B1 by (simp add: r_def)
  have r_lo: "1 / 2 ^ 50 < r"
  proof -
    have "1 / 2 ^ 50 < 1 / B" using B50 B1 by (simp add: field_simps)
    also have "\<dots> \<le> A / B" using A1 B1 by (simp add: divide_right_mono)
    finally show ?thesis by (simp add: r_def)
  qed
  have r_pos: "0 < r" using r_lo by (simp add: order.strict_trans [rotated])
  have r_le: "r \<le> 1" using AB B1 by (simp add: r_def)
  have r_norm: "2 powi (- 1022) \<le> \<bar>r\<bar>"
  proof -
    have "(1::rat) / 2 ^ 51 \<le> 1 / 2 ^ 50" by simp
    then show ?thesis using tiny_le r_lo r_pos by linarith
  qed
  have e1: "\<bar>r1 - r\<bar> \<le> r * eps"
    using fl_rel_error [OF r_norm] r_pos by (simp add: r1_def eps_def)
  have reps: "r * eps \<le> r * (1 / 2)" using eps r_pos by (intro mult_left_mono) auto
  have r1_lo: "r / 2 \<le> r1" using e1 reps by (simp add: abs_le_iff) 
  have r1_hi: "r1 \<le> 2" using e1 reps r_le by (simp add: abs_le_iff)
  have r1_pos: "0 < r1" using r1_lo r_pos by linarith
  have t: "truediv a b = Inr (Finite r1)"
    using a ab r1_hi r1_pos by (simp add: truediv_def overflows_def r1_def r_def A_def B_def)
  have fc: "fl (of_int c) = of_int c" using c c50 by (intro fl_of_int) simp
  have C50: "C < 2 ^ 50"
  proof -
    have "(of_int c :: rat) < of_int (2 ^ 50)" using c50 by (simp only: of_int_less_iff)
    then show ?thesis by (simp add: C_def)
  qed
  have nc: "\<not> overflows (of_int c)" using C50 C1 by (simp add: overflows_def C_def)
  have p_lo: "1 / 2 ^ 51 < p"
  proof -
    have "1 / 2 ^ 51 < r / 2" using r_lo by simp
    also have "\<dots> \<le> r1 * 1" using r1_lo by simp
    also have "\<dots> \<le> r1 * C" using C1 r1_pos by (intro mult_left_mono) auto
    finally show ?thesis by (simp add: p_def)
  qed
  have p_pos: "0 < p"  using p_lo by (simp add: order.strict_trans [rotated])
  have p_norm: "2 powi (- 1022) \<le> \<bar>p\<bar>" using tiny_le p_lo p_pos by linarith
  have e2: "\<bar>f - p\<bar> \<le> p * eps"
    using fl_rel_error [OF p_norm] p_pos by (simp add: f eps_def)
  have px: "p - x = (r1 - r) * C" by (simp add: p_def x_def algebra_simps)
  have e3: "\<bar>p - x\<bar> \<le> x * eps"
  proof -
    have "\<bar>p - x\<bar> = \<bar>r1 - r\<bar> * C" using C1 by (simp add: px abs_mult)
    also have "\<dots> \<le> (r * eps) * C" using e1 C1 by (intro mult_right_mono) auto
    finally show ?thesis by (simp add: x_def algebra_simps)
  qed
  have x_pos: "0 < x" using r_pos C1 by (simp add: x_def)
  have xeps: "x * eps \<le> x" using eps x_pos by simp
  have p_hi: "p \<le> 2 * x" using e3 xeps by (simp add: abs_le_iff)
  have e4: "\<bar>f - x\<bar> \<le> 3 * (x * eps)"
  proof -
    have "p * eps \<le> (2 * x) * eps" using p_hi eps by (intro mult_right_mono) auto
    then show ?thesis using e2 e3 by (simp add: abs_le_iff)
  qed
  have xB: "x * B = A * C" using rB by (simp add: x_def algebra_simps)
  have small: "3 * (x * eps) < 1 / B"
  proof -
    have "3 * (x * eps) * B = 3 * (A * C) * eps" using xB by (simp add: algebra_simps)
    also have "\<dots> < 3 * 2 ^ 50 * eps" using AC50 eps by simp
    also have "\<dots> < 1" by (simp add: eps_def)
    finally show ?thesis using B1 by (simp add: pos_less_divide_eq)
  qed
  have f_near: "\<bar>f - x\<bar> < 1 / B" using e4 small by linarith
  have invB: "1 / B \<le> 1" using B1 by simp
  have x_le: "x \<le> C" using r_le C1 by (simp add: x_def mult_left_le_one_le)
  have f_pos: "0 \<le> f"
  proof -
    have "p * eps \<le> p * 1" using eps p_pos by (intro mult_left_mono) auto
    then have "\<bar>f - p\<bar> \<le> p" using e2 by simp
    then show ?thesis by (simp add: abs_le_iff)
  qed
  have f_hi: "f < 2 ^ 51" using f_near invB x_le C50 by (simp add: abs_less_iff)
  have nf: "\<not> overflows f" using f_pos f_hi by (simp add: overflows_def)
  have m: "float_mul_int (Finite r1) c = Inr (Finite f)"
    using nc nf by (simp add: float_mul_int_def float_of_int_def fc f p_def C_def)
  show "scaled a b c = Inr \<lfloor>f\<rfloor>"
    using f_pos by (simp add: scaled_def t m int_of_float_def)
  have xq: "x = of_int (a * c) / of_int b"
    by (simp add: x_def r_def A_def B_def C_def)
  have bpos: "0 < b" using a ab by linarith
  define d where "d = (a * c) div b"
  have dm: "a * c = b * d + (a * c) mod b" by (simp add: d_def)
  have m0: "0 \<le> (a * c) mod b" and m1: "(a * c) mod b \<le> b - 1"
    using bpos by (simp_all add: pos_mod_bound zle_diff1_eq)
  have xd: "x = of_int d + of_int ((a * c) mod b) / B"
    using B1 by (subst xq, subst dm) (simp add: B_def field_simps)
  have x_ge: "of_int d \<le> x" using m0 B1 by (simp add: xd)
  have x_lt: "x + 1 / B \<le> of_int d + 1"
  proof -
    have "(of_int ((a * c) mod b) :: rat) \<le> of_int (b - 1)" using m1 by (simp only: of_int_le_iff)
    then have "of_int ((a * c) mod b) + 1 \<le> B" by (simp add: B_def)
    then have "(of_int ((a * c) mod b) + 1) / B \<le> 1" using B1 by (simp add: pos_divide_le_eq)
    then show ?thesis by (simp add: xd add_divide_distrib)
  qed
  have "f < of_int (d + 1)" using f_near x_lt by (simp add: abs_less_iff)
  then have "\<lfloor>f\<rfloor> < d + 1" by (simp only: floor_less_iff)
  then show "\<lfloor>f\<rfloor> \<le> (a * c) div b" by (simp add: d_def)
  have "of_int (d - 1) \<le> f" using f_near x_ge invB by (simp add: abs_less_iff)
  then have "d - 1 \<le> \<lfloor>f\<rfloor>" by (simp only: le_floor_iff)
  then show "(a * c) div b - 1 \<le> \<lfloor>f\<rfloor>" by (simp add: d_def)
  have "x - 1 / B < f" using f_near by (simp add: abs_less_iff)
  moreover have "f < of_int (\<lfloor>f\<rfloor> + 1)" by linarith
  ultimately have "x < of_int (\<lfloor>f\<rfloor> + 1) + 1 / B" by linarith
  then have "x * B < (of_int (\<lfloor>f\<rfloor> + 1) + 1 / B) * B"
    using B1 by (intro mult_strict_right_mono) auto
  also have "\<dots> = of_int ((\<lfloor>f\<rfloor> + 1) * b) + 1"
    using B1 by (simp add: B_def algebra_simps)
  finally have "(of_int (a * c) :: rat) < of_int ((\<lfloor>f\<rfloor> + 1) * b + 1)"
    by (simp add: xB A_def C_def)
  then have "a * c < (\<lfloor>f\<rfloor> + 1) * b + 1" by (simp only: of_int_less_iff)
  then show "a * c \<le> (\<lfloor>f\<rfloor> + 1) * b" by simp
qed

section \<open>A target equal to the original dimension\<close>

text \<open>
  Claim C5. A target equal to the original dimension on the chosen axis is not skipped,
  and the computed dimensions are the original width and height. The original
  dimensions are positive and below \<open>2^53\<close>, as those of every decoded image are (the
  library holds them in machine integers), so that they are floats without rounding.
\<close>

theorem equal_target_reproduces_original:
  assumes "0 < orig_width" and "orig_width < 2 ^ 53"
    and "0 < orig_height" and "orig_height < 2 ^ 53"
  shows "new_dimensions dimension orig_width orig_height
           (if dimension = ''width'' then orig_width else orig_height)
         = Inr (Dims orig_width orig_height)"
  using assms by (simp add: new_dimensions_def scaled_same)

theorem equal_target_reproduces_original_witness:
  "(0::int) < 500 \<and> (500::int) < 2 ^ 53 \<and>
   new_dimensions ''width'' 500 500 500 = Inr (Dims 500 500)"
  using equal_target_reproduces_original [of 500 500 "''width''"] by simp

section \<open>Decimal text\<close>

lemma digit_cases:
  assumes "d < (10::nat)"
  shows "d = 0 \<or> d = 1 \<or> d = 2 \<or> d = 3 \<or> d = 4 \<or> d = 5 \<or> d = 6 \<or> d = 7 \<or> d = 8 \<or> d = 9"
  using assms by arith

lemma digit_val_digit_char: "d < 10 \<Longrightarrow> digit_val (digit_char d) = d"
  using digit_cases [of d] by (auto simp: digit_val_def digit_char_def)

lemma digit_char_not_minus: "d < 10 \<Longrightarrow> digit_char d \<noteq> CHR ''-''"
  using digit_cases [of d] by (auto simp: digit_char_def)

lemma nat_of_digits_snoc: "nat_of_digits (xs @ [c]) = 10 * nat_of_digits xs + digit_val c"
  by (simp add: nat_of_digits_def)

lemma nat_of_digits_str_nat: "nat_of_digits (str_nat n) = n"
proof (induction n rule: str_nat.induct)
  case (1 n)
  show ?case
  proof (cases "n < 10")
    case True
    then show ?thesis
      by (subst str_nat.simps) (simp add: nat_of_digits_def digit_val_digit_char)
  next
    case False
    then have "nat_of_digits (str_nat (n div 10)) = n div 10" using 1 by simp
    then show ?thesis using False
      by (subst str_nat.simps) (simp add: nat_of_digits_snoc digit_val_digit_char)
  qed
qed

lemma str_nat_head: "\<exists>c cs. str_nat n = c # cs \<and> c \<noteq> CHR ''-''"
proof (induction n rule: str_nat.induct)
  case (1 n)
  show ?case
  proof (cases "n < 10")
    case True
    then show ?thesis by (subst str_nat.simps) (simp add: digit_char_not_minus)
  next
    case False
    then obtain c cs where "str_nat (n div 10) = c # cs" "c \<noteq> CHR ''-''" using 1 by blast
    then show ?thesis using False by (subst str_nat.simps) simp
  qed
qed

lemma int_of_decimal_str_int: "int_of_decimal (str_int n) = n"
proof (cases "n < 0")
  case True
  then show ?thesis by (simp add: str_int_def int_of_decimal_def nat_of_digits_str_nat)
next
  case False
  obtain c cs where s: "str_nat (nat n) = c # cs" "c \<noteq> CHR ''-''"
    using str_nat_head by blast
  have "nat_of_digits (c # cs) = nat n" using nat_of_digits_str_nat [of "nat n"] s by simp
  then show ?thesis using False s by (simp add: str_int_def int_of_decimal_def)
qed

lemma str_int_inject: "str_int m = str_int n \<longleftrightarrow> m = n"
proof
  assume "str_int m = str_int n"
  then have "int_of_decimal (str_int m) = int_of_decimal (str_int n)" by (rule arg_cong)
  then show "m = n" by (simp only: int_of_decimal_str_int)
qed simp

lemma output_filename_inject:
  "output_filename base ext s = output_filename base ext t \<longleftrightarrow> s = t"
  by (simp add: output_filename_def str_int_inject)

section \<open>The two result lists\<close>

lemma new_dimensions_skip:
  assumes "new_dimensions d ow oh s = Inr (Skip r)"
  shows "exceeds_original d (ow, oh) s" and "r = skip_reason d (ow, oh)"
  using assms
  by (auto simp: new_dimensions_def exceeds_original_def skip_reason_def
      split: if_splits sum.splits)

lemma new_dimensions_dims:
  assumes "new_dimensions d ow oh s = Inr (Dims nw nh)"
  shows "\<not> exceeds_original d (ow, oh) s" and "(if d = ''width'' then nw else nh) = s"
  using assms
  by (auto simp: new_dimensions_def exceeds_original_def split: if_splits sum.splits)

lemma new_dimensions_exceeds:
  "exceeds_original d (ow, oh) s \<Longrightarrow>
   new_dimensions d ow oh s = Inr (Skip (skip_reason d (ow, oh)))"
  by (auto simp: new_dimensions_def exceeds_original_def skip_reason_def split: if_splits)

lemma produce_record:
  assumes "produce e l s nw nh w = Inr (r, w')"
  shows "cf_width r = nw" and "cf_height r = nh"
    and "cf_filename r = output_filename (l_base_name l) (l_extension l) s"
  using assms by (auto simp: produce_def Let_def split: sum.splits)

lemma process_sizes_results:
  assumes "process_sizes e l sizes acc w = Inr (acc', w')"
  shows "map (constrained (l_dimension l)) (fst acc') =
           map (constrained (l_dimension l)) (fst acc)
           @ filter (\<lambda>s. \<not> exceeds_original (l_dimension l)
                            (l_orig_width l, l_orig_height l) s) sizes
       \<and> snd acc' =
           snd acc @ map (\<lambda>s. (s, skip_reason (l_dimension l) (l_orig_width l, l_orig_height l)))
                        (filter (exceeds_original (l_dimension l)
                                   (l_orig_width l, l_orig_height l)) sizes)
       \<and> map cf_filename (fst acc') =
           map cf_filename (fst acc)
           @ map (output_filename (l_base_name l) (l_extension l))
               (filter (\<lambda>s. \<not> exceeds_original (l_dimension l)
                                (l_orig_width l, l_orig_height l) s) sizes)"
  using assms
proof (induction sizes arbitrary: acc w)
  case Nil
  then show ?case by simp
next
  case (Cons s sizes)
  let ?nd = "new_dimensions (l_dimension l) (l_orig_width l) (l_orig_height l) s"
  from Cons.prems obtain res where nd: "?nd = Inr res"
    by (cases ?nd) simp_all
  show ?case
  proof (cases res)
    case (Skip reason)
    have ex: "exceeds_original (l_dimension l) (l_orig_width l, l_orig_height l) s"
      and r: "reason = skip_reason (l_dimension l) (l_orig_width l, l_orig_height l)"
      using new_dimensions_skip [OF nd [unfolded Skip]] by simp_all
    have step: "process_sizes e l sizes (fst acc, snd acc @ [(s, reason)]) w = Inr (acc', w')"
      using Cons.prems nd Skip by simp
    show ?thesis using Cons.IH [OF step] ex r by simp
  next
    case (Dims nw nh)
    from Cons.prems nd Dims obtain r w1 where pr: "produce e l s nw nh w = Inr (r, w1)"
      by (cases "produce e l s nw nh w") auto
    have step: "process_sizes e l sizes (fst acc @ [r], snd acc) w1 = Inr (acc', w')"
      using Cons.prems nd Dims pr by simp
    have ex: "\<not> exceeds_original (l_dimension l) (l_orig_width l, l_orig_height l) s"
      and c: "constrained (l_dimension l) r = s"
      using new_dimensions_dims [OF nd [unfolded Dims]] produce_record(1,2) [OF pr]
      by (auto simp: constrained_def split: if_splits)
    show ?thesis using Cons.IH [OF step] ex c produce_record(3) [OF pr] by simp
  qed
qed

lemma process_sizes_created_dims:
  assumes "process_sizes e l sizes acc w = Inr (acc', w')"
    and "\<forall>r \<in> set (fst acc).
           new_dimensions (l_dimension l) (l_orig_width l) (l_orig_height l)
             (constrained (l_dimension l) r) = Inr (Dims (cf_width r) (cf_height r))"
  shows "\<forall>r \<in> set (fst acc').
           new_dimensions (l_dimension l) (l_orig_width l) (l_orig_height l)
             (constrained (l_dimension l) r) = Inr (Dims (cf_width r) (cf_height r))"
  using assms
proof (induction sizes arbitrary: acc w)
  case Nil
  then show ?case by simp
next
  case (Cons s sizes)
  let ?nd = "new_dimensions (l_dimension l) (l_orig_width l) (l_orig_height l) s"
  from Cons.prems(1) obtain res where nd: "?nd = Inr res"
    by (cases ?nd) simp_all
  show ?case
  proof (cases res)
    case (Skip reason)
    have step: "process_sizes e l sizes (fst acc, snd acc @ [(s, reason)]) w = Inr (acc', w')"
      using Cons.prems(1) nd Skip by simp
    have "\<forall>x \<in> set (fst (fst acc, snd acc @ [(s, reason)])).
           new_dimensions (l_dimension l) (l_orig_width l) (l_orig_height l)
             (constrained (l_dimension l) x) = Inr (Dims (cf_width x) (cf_height x))"
      using Cons.prems(2) by simp
    then show ?thesis by (rule Cons.IH [OF step])
  next
    case (Dims nw nh)
    from Cons.prems(1) nd Dims obtain r w1 where pr: "produce e l s nw nh w = Inr (r, w1)"
      by (cases "produce e l s nw nh w") auto
    have step: "process_sizes e l sizes (fst acc @ [r], snd acc) w1 = Inr (acc', w')"
      using Cons.prems(1) nd Dims pr by simp
    have c: "constrained (l_dimension l) r = s"
      using new_dimensions_dims [OF nd [unfolded Dims]] produce_record(1,2) [OF pr]
      by (auto simp: constrained_def split: if_splits)
    have w: "cf_width r = nw" and h: "cf_height r = nh"
      using produce_record(1,2) [OF pr] by simp_all
    have new: "new_dimensions (l_dimension l) (l_orig_width l) (l_orig_height l)
            (constrained (l_dimension l) r) = Inr (Dims (cf_width r) (cf_height r))"
      unfolding c w h using nd Dims by simp
    have "\<forall>x \<in> set (fst (fst acc @ [r], snd acc)).
           new_dimensions (l_dimension l) (l_orig_width l) (l_orig_height l)
             (constrained (l_dimension l) x) = Inr (Dims (cf_width x) (cf_height x))"
      using Cons.prems(2) new by auto
    then show ?thesis by (rule Cons.IH [OF step])
  qed
qed

lemma resize_image_returned:
  assumes op: "image_open e input_path = Inr img"
    and ret: "fst (resize_image e input_path output_dir sizes dimension quality w)
              = Returned (created, skipped)"
  shows "map (constrained dimension) created =
           filter (\<lambda>s. \<not> exceeds_original dimension (im_size img) s) sizes"
    and "skipped = map (\<lambda>s. (s, skip_reason dimension (im_size img)))
                     (filter (exceeds_original dimension (im_size img)) sizes)"
    and "map cf_filename created =
           map (output_filename (stem input_path) (suffix input_path))
             (filter (\<lambda>s. \<not> exceeds_original dimension (im_size img) s) sizes)"
    and "\<forall>r \<in> set created.
           new_dimensions dimension (fst (im_size img)) (snd (im_size img))
             (constrained dimension r) = Inr (Dims (cf_width r) (cf_height r))"
proof -
  define l where "l = \<lparr>l_img = img, l_orig_width = fst (im_size img),
      l_orig_height = snd (im_size img), l_output_dir = output_dir,
      l_base_name = stem input_path, l_extension = suffix input_path,
      l_dimension = dimension, l_quality = quality\<rparr>"
  from ret obtain w' where
    run: "process_sizes e l sizes ([], [])
            (mkdir output_dir (library_prints (open_stderr e input_path) w))
          = Inr ((created, skipped), w')"
    unfolding resize_image_def op l_def
    by (auto simp: Let_def split: sum.splits prod.splits)
  note r = process_sizes_results [OF run]
  show "map (constrained dimension) created =
           filter (\<lambda>s. \<not> exceeds_original dimension (im_size img) s) sizes"
    using r by (simp add: l_def)
  show "skipped = map (\<lambda>s. (s, skip_reason dimension (im_size img)))
                     (filter (exceeds_original dimension (im_size img)) sizes)"
    using r by (simp add: l_def)
  show "map cf_filename created =
           map (output_filename (stem input_path) (suffix input_path))
             (filter (\<lambda>s. \<not> exceeds_original dimension (im_size img) s) sizes)"
    using r by (simp add: l_def)
  show "\<forall>r \<in> set created.
           new_dimensions dimension (fst (im_size img)) (snd (im_size img))
             (constrained dimension r) = Inr (Dims (cf_width r) (cf_height r))"
    using process_sizes_created_dims [OF run] by (simp add: l_def)
qed

section \<open>Running the model on concrete input\<close>

lemma scaled_eval:
  assumes "b \<noteq> 0" and "fl (of_int a / of_int b) = r" and "\<bar>r\<bar> < 2 ^ 1024"
    and "\<bar>c\<bar> < 2 ^ 53" and "fl (r * of_int c) = f" and "\<bar>f\<bar> < 2 ^ 1024"
  shows "scaled a b c = Inr (if 0 \<le> f then \<lfloor>f\<rfloor> else \<lceil>f\<rceil>)"
proof -
  have t: "truediv a b = Inr (Finite r)"
    using assms(1,2,3) by (simp add: truediv_def overflows_def)
  have fc: "fl (of_int c) = of_int c" using assms(4) by (rule fl_of_int)
  have "(of_int \<bar>c\<bar> :: rat) < of_int (2 ^ 53)" using assms(4) by (simp only: of_int_less_iff)
  then have nc: "\<not> overflows (of_int c)" by (simp add: overflows_def)
  have m: "float_mul_int (Finite r) c = Inr (Finite f)"
    using nc assms(5,6) by (simp add: float_mul_int_def float_of_int_def fc overflows_def)
  show ?thesis by (simp add: scaled_def t m int_of_float_def)
qed

lemma fl_half: "fl (1 / 2) = 1 / 2"
  using fl_representable [of 1 "- 1"] by (simp add: power_int_minus_divide)

lemma scaled_960: "scaled 960 1920 1080 = Inr 540"
  using scaled_eval [of 1920 960 "1 / 2" 1080 540] fl_half fl_of_int [of 540] by simp

lemma str_1920: "str_int 1920 = ''1920''"
  by (simp add: str_int_def str_nat.simps digit_char_def)

lemma str_960: "str_int 960 = ''960''"
  by (simp add: str_int_def str_nat.simps digit_char_def)

lemma kb_2048: "get_file_size_kb (studio w h m) im q = Inr (Finite 2)"
  using fl_of_int [of 2] by (simp add: get_file_size_kb_def studio_def truediv_def overflows_def)

lemma scenario_a:
  "resize_image (studio 1920 1080 ''RGB'') photo ''out'' [3840, 960] ''width'' 90 empty_world
   = (Returned
       ([\<lparr>cf_path = (''out'', ''photo_960.jpg''), cf_filename = ''photo_960.jpg'',
          cf_width = 960, cf_height = 540, cf_size_kb = Finite 2\<rparr>],
        [(3840, ''original is only 1920px wide'')]),
      \<lparr>w_stderr = [], w_dirs = [''out''],
       w_files = [(''out'', ''photo_960.jpg'',
                   \<lparr>im_mode = ''RGB'', im_size = (960, 540),
                    im_data = Resampled (Source ''photo.jpg'') 960 540 ''LANCZOS''\<rparr>, 90)]\<rparr>)"
  by (simp add: resize_image_def studio_def photo_def empty_world_def mkdir_def
      library_prints_def new_dimensions_def scaled_960 str_1920 str_960 produce_def resize_def output_filename_def
      flatten_to_rgb_def save_def kb_2048 [unfolded studio_def] Let_def)

lemmas run_defs = resize_image_def studio_def photo_def empty_world_def mkdir_def
  library_prints_def
  new_dimensions_def produce_def resize_def output_filename_def flatten_to_rgb_def
  Image_new_def convert_def last_band_def paste_def save_def Let_def

lemma str_600: "str_int 600 = ''600''"
  by (simp add: str_int_def str_nat.simps digit_char_def)

lemma str_300: "str_int 300 = ''300''"
  by (simp add: str_int_def str_nat.simps digit_char_def)

lemma str_100: "str_int 100 = ''100''"
  by (simp add: str_int_def str_nat.simps digit_char_def)

lemma scaled_300: "scaled 300 600 800 = Inr 400"
  using scaled_eval [of 600 300 "1 / 2" 800 400] fl_half fl_of_int [of 400] by simp

lemma scaled_600: "scaled 600 600 800 = Inr 800"
  by (rule scaled_same) simp_all

lemma scaled_100: "scaled 100 200 100 = Inr 50"
  using scaled_eval [of 200 100 "1 / 2" 100 50] fl_half fl_of_int [of 50] by simp

lemma scenario_b:
  "fst (resize_image (studio 800 600 ''RGBA'') photo ''out'' [300, 900, 600] ''height'' 80
          empty_world)
   = Returned
       ([\<lparr>cf_path = (''out'', ''photo_300.jpg''), cf_filename = ''photo_300.jpg'',
          cf_width = 400, cf_height = 300, cf_size_kb = Finite 2\<rparr>,
         \<lparr>cf_path = (''out'', ''photo_600.jpg''), cf_filename = ''photo_600.jpg'',
          cf_width = 800, cf_height = 600, cf_size_kb = Finite 2\<rparr>],
        [(900, ''original is only 600px tall'')])"
  by (simp add: run_defs scaled_300 scaled_600 str_300 str_600 kb_2048 [unfolded studio_def])

lemma scenario_d:
  "fst (resize_image (studio 200 100 ''RGB'') photo ''out'' [100, 100] ''width'' 90 empty_world)
   = Returned
       ([\<lparr>cf_path = (''out'', ''photo_100.jpg''), cf_filename = ''photo_100.jpg'',
          cf_width = 100, cf_height = 50, cf_size_kb = Finite 2\<rparr>,
         \<lparr>cf_path = (''out'', ''photo_100.jpg''), cf_filename = ''photo_100.jpg'',
          cf_width = 100, cf_height = 50, cf_size_kb = Finite 2\<rparr>],
        [])"
  by (simp add: run_defs scaled_100 str_100 kb_2048 [unfolded studio_def])

section \<open>Claims about the result lists\<close>

text \<open>
  Claim C2. When a run of \<open>resize_image\<close> returns, the created records and the skipped
  records together are as many as the requested sizes. The created records are, in
  order, the sizes that do not exceed the original; the skipped records are, in order,
  the sizes that do. So every size has exactly one of the two outcomes.
\<close>

theorem every_target_has_one_outcome:
  assumes "image_open e input_path = Inr img"
    and "fst (resize_image e input_path output_dir sizes dimension quality w)
         = Returned (created, skipped)"
  shows "length created + length skipped = length sizes
       \<and> map (constrained dimension) created =
           filter (\<lambda>s. \<not> exceeds_original dimension (im_size img) s) sizes
       \<and> map fst skipped = filter (exceeds_original dimension (im_size img)) sizes"
proof -
  note r = resize_image_returned [OF assms]
  have c: "length created =
      length (filter (\<lambda>s. \<not> exceeds_original dimension (im_size img) s) sizes)"
    using arg_cong [OF r(1), of length] by simp
  have k: "length skipped = length (filter (exceeds_original dimension (im_size img)) sizes)"
    using arg_cong [OF r(2), of length] by simp
  have "length created + length skipped = length sizes"
    unfolding c k using sum_length_filter_compl [of "exceeds_original dimension (im_size img)" sizes]
    by simp
  moreover have "map fst skipped = filter (exceeds_original dimension (im_size img)) sizes"
    unfolding r(2) by (simp add: comp_def)
  ultimately show ?thesis using r(1) by simp
qed

theorem every_target_has_one_outcome_witness:
  "image_open (studio 800 600 ''RGBA'') photo
     = Inr \<lparr>im_mode = ''RGBA'', im_size = (800, 600), im_data = Source ''photo.jpg''\<rparr>
   \<and> fst (resize_image (studio 800 600 ''RGBA'') photo ''out'' [300, 900, 600] ''height'' 80
            empty_world)
     = Returned
         ([\<lparr>cf_path = (''out'', ''photo_300.jpg''), cf_filename = ''photo_300.jpg'',
            cf_width = 400, cf_height = 300, cf_size_kb = Finite 2\<rparr>,
           \<lparr>cf_path = (''out'', ''photo_600.jpg''), cf_filename = ''photo_600.jpg'',
            cf_width = 800, cf_height = 600, cf_size_kb = Finite 2\<rparr>],
          [(900, ''original is only 600px tall'')])
   \<and> filter (\<lambda>s. \<not> exceeds_original ''height'' (800, 600) s) [300, 900, 600] = [300, 600]
   \<and> filter (exceeds_original ''height'' (800, 600)) [300, 900, 600] = [900]"
proof -
  have op: "image_open (studio 800 600 ''RGBA'') photo
      = Inr \<lparr>im_mode = ''RGBA'', im_size = (800, 600), im_data = Source ''photo.jpg''\<rparr>"
    by (simp add: studio_def photo_def)
  from every_target_has_one_outcome [OF op scenario_b] op scenario_b
  show ?thesis by (simp add: constrained_def)
qed

text \<open>
  Claim C3. A target larger than the original dimension on the chosen axis is recorded
  as skipped, with the reason that names the original dimension (\<open>original is only
  1920px wide\<close> for a width of 1920): the loop appends the record, changes nothing
  else, and goes on with the remaining targets. So when the run returns, the skipped
  records are exactly these targets with that reason, none of them is among the
  created records, and every target that fits, before or after them, is created.
\<close>

theorem oversized_target_is_skipped:
  "(exceeds_original (l_dimension l) (l_orig_width l, l_orig_height l) s \<longrightarrow>
      process_sizes e l (s # rest) acc w
        = process_sizes e l rest
            (fst acc,
             snd acc @ [(s, skip_reason (l_dimension l) (l_orig_width l, l_orig_height l))]) w)
   \<and> (image_open e input_path = Inr img
        \<and> fst (resize_image e input_path output_dir sizes dimension quality w)
            = Returned (created, skipped) \<longrightarrow>
        skipped = map (\<lambda>s. (s, skip_reason dimension (im_size img)))
                    (filter (exceeds_original dimension (im_size img)) sizes)
        \<and> (\<forall>s \<in> set sizes. exceeds_original dimension (im_size img) s \<longrightarrow>
              (s, skip_reason dimension (im_size img)) \<in> set skipped
              \<and> s \<notin> constrained dimension ` set created)
        \<and> map (constrained dimension) created =
            filter (\<lambda>s. \<not> exceeds_original dimension (im_size img) s) sizes)"
proof (intro conjI impI)
  assume "exceeds_original (l_dimension l) (l_orig_width l, l_orig_height l) s"
  then show "process_sizes e l (s # rest) acc w
        = process_sizes e l rest
            (fst acc,
             snd acc @ [(s, skip_reason (l_dimension l) (l_orig_width l, l_orig_height l))]) w"
    by (simp add: new_dimensions_exceeds)
next
  assume a: "image_open e input_path = Inr img
        \<and> fst (resize_image e input_path output_dir sizes dimension quality w)
            = Returned (created, skipped)"
  note r = resize_image_returned [OF conjunct1 [OF a] conjunct2 [OF a]]
  have img: "constrained dimension ` set created =
      {s \<in> set sizes. \<not> exceeds_original dimension (im_size img) s}"
    using arg_cong [OF r(1), of set] by simp
  show "skipped = map (\<lambda>s. (s, skip_reason dimension (im_size img)))
                    (filter (exceeds_original dimension (im_size img)) sizes)"
    by (rule r(2))
  show "\<forall>s \<in> set sizes. exceeds_original dimension (im_size img) s \<longrightarrow>
              (s, skip_reason dimension (im_size img)) \<in> set skipped
              \<and> s \<notin> constrained dimension ` set created"
    using img r(2) by auto
  show "map (constrained dimension) created =
            filter (\<lambda>s. \<not> exceeds_original dimension (im_size img) s) sizes"
    by (rule r(1))
qed

theorem oversized_target_is_skipped_witness:
  "exceeds_original ''width'' (1920, 1080) 3840
   \<and> process_sizes (studio 1920 1080 ''RGB'')
         \<lparr>l_img = shot ''RGB'', l_orig_width = 1920, l_orig_height = 1080,
          l_output_dir = ''out'', l_base_name = ''photo'', l_extension = ''.jpg'',
          l_dimension = ''width'', l_quality = 90\<rparr>
         [3840, 960] ([], []) empty_world
     = process_sizes (studio 1920 1080 ''RGB'')
         \<lparr>l_img = shot ''RGB'', l_orig_width = 1920, l_orig_height = 1080,
          l_output_dir = ''out'', l_base_name = ''photo'', l_extension = ''.jpg'',
          l_dimension = ''width'', l_quality = 90\<rparr>
         [960] ([], [(3840, ''original is only 1920px wide'')]) empty_world
   \<and> image_open (studio 1920 1080 ''RGB'') photo
     = Inr \<lparr>im_mode = ''RGB'', im_size = (1920, 1080), im_data = Source ''photo.jpg''\<rparr>
   \<and> fst (resize_image (studio 1920 1080 ''RGB'') photo ''out'' [3840, 960] ''width'' 90
            empty_world)
     = Returned
         ([\<lparr>cf_path = (''out'', ''photo_960.jpg''), cf_filename = ''photo_960.jpg'',
            cf_width = 960, cf_height = 540, cf_size_kb = Finite 2\<rparr>],
          [(3840, ''original is only 1920px wide'')])
   \<and> skip_reason ''width'' (1920, 1080) = ''original is only 1920px wide''
   \<and> filter (\<lambda>s. \<not> exceeds_original ''width'' (1920, 1080) s) [3840, 960] = [960]"
proof -
  have op: "image_open (studio 1920 1080 ''RGB'') photo
      = Inr \<lparr>im_mode = ''RGB'', im_size = (1920, 1080), im_data = Source ''photo.jpg''\<rparr>"
    by (simp add: studio_def photo_def)
  have ret: "fst (resize_image (studio 1920 1080 ''RGB'') photo ''out'' [3840, 960] ''width'' 90
            empty_world)
     = Returned
         ([\<lparr>cf_path = (''out'', ''photo_960.jpg''), cf_filename = ''photo_960.jpg'',
            cf_width = 960, cf_height = 540, cf_size_kb = Finite 2\<rparr>],
          [(3840, ''original is only 1920px wide'')])"
    by (simp add: scenario_a)
  have ex: "exceeds_original ''width'' (1920, 1080) 3840"
    by (simp add: exceeds_original_def)
  have reason: "skip_reason ''width'' (1920, 1080) = ''original is only 1920px wide''"
    by (simp add: skip_reason_def str_1920)
  note t = oversized_target_is_skipped
    [where l = "\<lparr>l_img = shot ''RGB'', l_orig_width = 1920, l_orig_height = 1080,
          l_output_dir = ''out'', l_base_name = ''photo'', l_extension = ''.jpg'',
          l_dimension = ''width'', l_quality = 90\<rparr>"
      and s = 3840 and e = "studio 1920 1080 ''RGB''" and rest = "[960]"
      and acc = "([], [])" and w = empty_world and input_path = photo
      and img = "\<lparr>im_mode = ''RGB'', im_size = (1920, 1080), im_data = Source ''photo.jpg''\<rparr>"
      and output_dir = "''out''" and sizes = "[3840, 960]" and dimension = "''width''"
      and quality = 90
      and created = "[\<lparr>cf_path = (''out'', ''photo_960.jpg''), cf_filename = ''photo_960.jpg'',
            cf_width = 960, cf_height = 540, cf_size_kb = Finite 2\<rparr>]"
      and skipped = "[(3840, ''original is only 1920px wide'')]"]
  have step: "process_sizes (studio 1920 1080 ''RGB'')
         \<lparr>l_img = shot ''RGB'', l_orig_width = 1920, l_orig_height = 1080,
          l_output_dir = ''out'', l_base_name = ''photo'', l_extension = ''.jpg'',
          l_dimension = ''width'', l_quality = 90\<rparr>
         [3840, 960] ([], []) empty_world
     = process_sizes (studio 1920 1080 ''RGB'')
         \<lparr>l_img = shot ''RGB'', l_orig_width = 1920, l_orig_height = 1080,
          l_output_dir = ''out'', l_base_name = ''photo'', l_extension = ''.jpg'',
          l_dimension = ''width'', l_quality = 90\<rparr>
         [960] ([], [(3840, ''original is only 1920px wide'')]) empty_world"
    using conjunct1 [OF t] ex reason by (simp del: process_sizes.simps)
  have "filter (\<lambda>s. \<not> exceeds_original ''width'' (1920, 1080) s) [3840, 960] = [960]"
    using conjunct2 [OF t] op ret by (simp add: constrained_def)
  then show ?thesis using step op ret ex reason by (simp del: process_sizes.simps)
qed

text \<open>
  Claim C9. The file name of every created record is the stem of the input path, an
  underscore, the target size in decimal, and the suffix of the input path. For one
  input path two names are equal exactly when the sizes are, so a size requested twice
  gives the same name twice, and each request has its own created record.
\<close>

theorem destination_name_of_variant:
  assumes "image_open e input_path = Inr img"
    and "fst (resize_image e input_path output_dir sizes dimension quality w)
         = Returned (created, skipped)"
  shows "map cf_filename created =
           map (\<lambda>s. stem input_path @ ''_'' @ str_int s @ suffix input_path)
             (filter (\<lambda>s. \<not> exceeds_original dimension (im_size img) s) sizes)
       \<and> (\<forall>s t. stem input_path @ ''_'' @ str_int s @ suffix input_path
                 = stem input_path @ ''_'' @ str_int t @ suffix input_path
               \<longleftrightarrow> s = t)"
  using resize_image_returned(3) [OF assms] output_filename_inject [of "stem input_path" "suffix input_path"]
  by (simp add: output_filename_def)

theorem destination_name_of_variant_witness:
  "image_open (studio 200 100 ''RGB'') photo
     = Inr \<lparr>im_mode = ''RGB'', im_size = (200, 100), im_data = Source ''photo.jpg''\<rparr>
   \<and> fst (resize_image (studio 200 100 ''RGB'') photo ''out'' [100, 100] ''width'' 90 empty_world)
     = Returned
       ([\<lparr>cf_path = (''out'', ''photo_100.jpg''), cf_filename = ''photo_100.jpg'',
          cf_width = 100, cf_height = 50, cf_size_kb = Finite 2\<rparr>,
         \<lparr>cf_path = (''out'', ''photo_100.jpg''), cf_filename = ''photo_100.jpg'',
          cf_width = 100, cf_height = 50, cf_size_kb = Finite 2\<rparr>],
        [])
   \<and> map (\<lambda>s. stem photo @ ''_'' @ str_int s @ suffix photo)
         (filter (\<lambda>s. \<not> exceeds_original ''width'' (200, 100) s) [100, 100])
     = [''photo_100.jpg'', ''photo_100.jpg'']"
proof -
  have op: "image_open (studio 200 100 ''RGB'') photo
      = Inr \<lparr>im_mode = ''RGB'', im_size = (200, 100), im_data = Source ''photo.jpg''\<rparr>"
    by (simp add: studio_def photo_def)
  from destination_name_of_variant [OF op scenario_d] op scenario_d
  show ?thesis by simp
qed

section \<open>The axis argument\<close>

lemma new_dimensions_other_axis:
  "dimension \<noteq> ''width'' \<Longrightarrow>
   new_dimensions dimension ow oh s = new_dimensions ''height'' ow oh s"
  by (simp add: new_dimensions_def)

lemma produce_dimension [simp]:
  "produce e (l\<lparr>l_dimension := d\<rparr>) s nw nh w = produce e l s nw nh w"
  by (simp add: produce_def Let_def cong: sum.case_cong)

lemma process_sizes_other_axis:
  "l_dimension l \<noteq> ''width'' \<Longrightarrow>
   process_sizes e l sizes acc w = process_sizes e (l\<lparr>l_dimension := ''height''\<rparr>) sizes acc w"
proof (induction sizes arbitrary: acc w)
  case Nil
  then show ?case by simp
next
  case (Cons s sizes)
  then show ?case
    by (simp add: new_dimensions_other_axis [of "l_dimension l"]
          cong: sum.case_cong resolution.case_cong prod.case_cong)
qed

lemma resize_image_other_axis:
  assumes "dimension \<noteq> ''width''"
  shows "resize_image e input_path output_dir sizes dimension quality w
         = resize_image e input_path output_dir sizes ''height'' quality w"
proof (cases "image_open e input_path")
  case (Inl details)
  then show ?thesis by (simp add: resize_image_def)
next
  case (Inr img)
  show ?thesis
    using process_sizes_other_axis
      [of "\<lparr>l_img = img, l_orig_width = fst (im_size img),
            l_orig_height = snd (im_size img), l_output_dir = output_dir,
            l_base_name = stem input_path, l_extension = suffix input_path,
            l_dimension = dimension, l_quality = quality\<rparr>"
          e sizes "([], [])" "mkdir output_dir (library_prints (open_stderr e input_path) w)"]
      assms
    by (simp add: resize_image_def Inr Let_def)
qed

lemma height_run:
  "fst (resize_image (studio 800 600 ''RGB'') photo ''out'' [300, 900] ''height'' 80 empty_world)
   = Returned
       ([\<lparr>cf_path = (''out'', ''photo_300.jpg''), cf_filename = ''photo_300.jpg'',
          cf_width = 400, cf_height = 300, cf_size_kb = Finite 2\<rparr>],
        [(900, ''original is only 600px tall'')])"
  by (simp add: run_defs scaled_300 str_300 str_600 kb_2048 [unfolded studio_def])

text \<open>
  Claim C10. The axis argument is only ever compared with the text \<open>width\<close>. For every
  other value, a misspelling as much as \<open>height\<close>, the height logic is applied: the target
  is compared with the original height, a larger target is skipped with the reason
  that ends in \<open>px tall\<close>, and otherwise the target is the new height and the new width is
  \<open>int((size / orig_height) * orig_width)\<close>. The whole call is the call for \<open>height\<close>;
  nothing validates the argument and nothing rejects it. So when the run returns, the
  skipped records are the targets above the original height, each with that reason,
  the heights of the created records are the other targets in order, and the width of
  each created record is the one derived from its height.
\<close>

theorem unknown_axis_is_height:
  assumes "dimension \<noteq> ''width''"
  shows "new_dimensions dimension orig_width orig_height size'
           = (if size' > orig_height
              then Inr (Skip (''original is only '' @ str_int orig_height @ ''px tall''))
              else (case scaled size' orig_height orig_width of
                      Inl x \<Rightarrow> Inl x
                    | Inr new_width \<Rightarrow> Inr (Dims new_width size')))
       \<and> resize_image e input_path output_dir sizes dimension quality w
           = resize_image e input_path output_dir sizes ''height'' quality w
       \<and> (image_open e input_path = Inr img
            \<and> fst (resize_image e input_path output_dir sizes dimension quality w)
                = Returned (created, skipped) \<longrightarrow>
            skipped = map (\<lambda>s. (s, ''original is only '' @ str_int (snd (im_size img))
                                     @ ''px tall''))
                        (filter (\<lambda>s. s > snd (im_size img)) sizes)
            \<and> map cf_height created = filter (\<lambda>s. \<not> s > snd (im_size img)) sizes
            \<and> (\<forall>r \<in> set created.
                  scaled (cf_height r) (snd (im_size img)) (fst (im_size img))
                    = Inr (cf_width r)))"
proof (intro conjI impI)
  show "new_dimensions dimension orig_width orig_height size'
           = (if size' > orig_height
              then Inr (Skip (''original is only '' @ str_int orig_height @ ''px tall''))
              else (case scaled size' orig_height orig_width of
                      Inl x \<Rightarrow> Inl x
                    | Inr new_width \<Rightarrow> Inr (Dims new_width size')))"
    using assms by (simp add: new_dimensions_def)
  show "resize_image e input_path output_dir sizes dimension quality w
           = resize_image e input_path output_dir sizes ''height'' quality w"
    using assms by (rule resize_image_other_axis)
next
  assume a: "image_open e input_path = Inr img
            \<and> fst (resize_image e input_path output_dir sizes dimension quality w)
                = Returned (created, skipped)"
  note r = resize_image_returned [OF conjunct1 [OF a] conjunct2 [OF a]]
  have ex: "exceeds_original dimension (im_size img) = (\<lambda>s. s > snd (im_size img))"
    using assms by (simp add: exceeds_original_def fun_eq_iff)
  show "skipped = map (\<lambda>s. (s, ''original is only '' @ str_int (snd (im_size img))
                                     @ ''px tall''))
                        (filter (\<lambda>s. s > snd (im_size img)) sizes)"
    using r(2) assms unfolding ex by (simp add: skip_reason_def)
  have "map (constrained dimension) created = map cf_height created"
    using assms by (simp add: constrained_def)
  then show "map cf_height created = filter (\<lambda>s. \<not> s > snd (im_size img)) sizes"
    using r(1) unfolding ex by simp
  show "\<forall>r \<in> set created.
          scaled (cf_height r) (snd (im_size img)) (fst (im_size img)) = Inr (cf_width r)"
  proof
    fix c
    assume "c \<in> set created"
    then have "new_dimensions dimension (fst (im_size img)) (snd (im_size img)) (cf_height c)
        = Inr (Dims (cf_width c) (cf_height c))"
      using r(4) assms by (simp add: constrained_def)
    then show "scaled (cf_height c) (snd (im_size img)) (fst (im_size img))
        = Inr (cf_width c)"
      using assms by (auto simp: new_dimensions_def split: if_splits sum.splits)
  qed
qed

theorem unknown_axis_is_height_witness:
  "''widht'' \<noteq> ''width''
   \<and> new_dimensions ''widht'' 800 600 300 = Inr (Dims 400 300)
   \<and> new_dimensions ''widht'' 800 600 900 = Inr (Skip ''original is only 600px tall'')
   \<and> image_open (studio 800 600 ''RGB'') photo
       = Inr \<lparr>im_mode = ''RGB'', im_size = (800, 600), im_data = Source ''photo.jpg''\<rparr>
   \<and> fst (resize_image (studio 800 600 ''RGB'') photo ''out'' [300, 900] ''widht'' 80
            empty_world)
       = Returned
           ([\<lparr>cf_path = (''out'', ''photo_300.jpg''), cf_filename = ''photo_300.jpg'',
              cf_width = 400, cf_height = 300, cf_size_kb = Finite 2\<rparr>],
            [(900, ''original is only 600px tall'')])
   \<and> scaled 300 600 800 = Inr 400"
proof -
  have ne: "''widht'' \<noteq> ''width''" by simp
  have op: "image_open (studio 800 600 ''RGB'') photo
       = Inr \<lparr>im_mode = ''RGB'', im_size = (800, 600), im_data = Source ''photo.jpg''\<rparr>"
    by (simp add: studio_def photo_def)
  note t300 = unknown_axis_is_height
    [OF ne, where orig_width = 800 and orig_height = 600 and size' = 300
      and e = "studio 800 600 ''RGB''" and input_path = photo and output_dir = "''out''"
      and sizes = "[300, 900]" and quality = 80 and w = empty_world
      and img = "\<lparr>im_mode = ''RGB'', im_size = (800, 600), im_data = Source ''photo.jpg''\<rparr>"
      and created = "[\<lparr>cf_path = (''out'', ''photo_300.jpg''), cf_filename = ''photo_300.jpg'',
              cf_width = 400, cf_height = 300, cf_size_kb = Finite 2\<rparr>]"
      and skipped = "[(900, ''original is only 600px tall'')]"]
  note t900 = unknown_axis_is_height
    [OF ne, where orig_width = 800 and orig_height = 600 and size' = 900
      and e = "studio 800 600 ''RGB''" and input_path = photo and output_dir = "''out''"
      and sizes = "[300, 900]" and quality = 80 and w = empty_world
      and img = "\<lparr>im_mode = ''RGB'', im_size = (800, 600), im_data = Source ''photo.jpg''\<rparr>"
      and created = "[]" and skipped = "[]"]
  have d300: "new_dimensions ''widht'' 800 600 300 = Inr (Dims 400 300)"
    using conjunct1 [OF t300] by (simp add: scaled_300)
  have d900: "new_dimensions ''widht'' 800 600 900 = Inr (Skip ''original is only 600px tall'')"
    using conjunct1 [OF t900] by (simp add: str_600)
  have run: "fst (resize_image (studio 800 600 ''RGB'') photo ''out'' [300, 900] ''widht'' 80
            empty_world)
       = Returned
           ([\<lparr>cf_path = (''out'', ''photo_300.jpg''), cf_filename = ''photo_300.jpg'',
              cf_width = 400, cf_height = 300, cf_size_kb = Finite 2\<rparr>],
            [(900, ''original is only 600px tall'')])"
    using conjunct1 [OF conjunct2 [OF t300]] height_run by simp
  have "scaled 300 600 800 = Inr 400"
    using conjunct2 [OF conjunct2 [OF t300]] op run by simp
  then show ?thesis using ne d300 d900 op run by simp
qed

section \<open>The derived dimension\<close>

lemma fl_1_1920: "fl (1 / 1920) = 4803839602528529 / 2 ^ 63"
  using fl_eqI [of "- 11" "1 / 1920" 4803839602528529] by (simp add: power_int_minus_divide)

lemma fl_1_1920_times_1080: "fl (4803839602528529 / 2 ^ 63 * 1080) = 9 / 16"
  using fl_eqI [of "- 1" "4803839602528529 / 2 ^ 63 * 1080" 5066549580791808]
  by (simp add: power_int_minus_divide)

lemma scaled_1_1920: "scaled 1 1920 1080 = Inr 0"
  using scaled_eval [of 1920 1 "4803839602528529 / 2 ^ 63" 1080 "9 / 16"]
    fl_1_1920 fl_1_1920_times_1080
  by (simp add: floor_eq_iff)

lemma fl_57_100: "fl (57 / 100) = 5134103575202365 / 2 ^ 53"
  using fl_eqI [of "- 1" "57 / 100" 5134103575202365] by (simp add: power_int_minus_divide)

lemma fl_57_100_times_100: "fl (5134103575202365 / 2 ^ 53 * 100) = 8022036836253695 / 2 ^ 47"
  using fl_eqI [of 5 "5134103575202365 / 2 ^ 53 * 100" 8022036836253695]
  by (simp add: power_int_minus_divide)

lemma scaled_57_100: "scaled 57 100 100 = Inr 56"
  using scaled_eval [of 100 57 "5134103575202365 / 2 ^ 53" 100 "8022036836253695 / 2 ^ 47"]
    fl_57_100 fl_57_100_times_100
  by (simp add: floor_eq_iff)

lemma derived_of_scaled:
  assumes a: "1 \<le> a" and ab: "a \<le> b" and c: "1 \<le> c" and bc: "b * c < 2 ^ 50"
  defines "derived \<equiv> \<lfloor>fl (fl (of_int a / of_int b) * of_int c)\<rfloor>"
    and "exact \<equiv> (of_int (a * c) / of_int b :: rat)"
  shows "scaled a b c = Inr derived"
    and "derived = \<lfloor>exact\<rfloor> \<or> derived = \<lfloor>exact\<rfloor> - 1"
    and "\<bar>of_int derived - exact\<bar> \<le> 1"
proof -
  note s = scaled_feasible [OF a ab c bc]
  show "scaled a b c = Inr derived" using s(1) by (simp add: derived_def)
  have fl: "\<lfloor>exact\<rfloor> = (a * c) div b"
    unfolding exact_def by (rule floor_divide_of_int_eq)
  show "derived = \<lfloor>exact\<rfloor> \<or> derived = \<lfloor>exact\<rfloor> - 1"
    using s(2,3) unfolding fl derived_def by linarith
  have b: "(0::rat) < of_int b" using a ab by simp
  have "(of_int derived :: rat) \<le> of_int \<lfloor>exact\<rfloor>"
    using s(3) unfolding fl derived_def by (simp only: of_int_le_iff)
  then have up: "of_int derived \<le> exact" by linarith
  have "(of_int (a * c) :: rat) \<le> of_int ((derived + 1) * b)"
    using s(4) unfolding derived_def by (simp only: of_int_le_iff)
  then have "exact \<le> of_int (derived + 1)"
    using b unfolding exact_def by (simp add: pos_divide_le_eq)
  then show "\<bar>of_int derived - exact\<bar> \<le> 1" using up by simp
qed

text \<open>
  Claim C4. For a target of at least 1 that does not exceed the original, on an image
  of fewer than \<open>2^50\<close> pixels, the derived dimension is computed without an exception
  and is the integer part of the binary64 value of
  \<open>(size / constrained) * orthogonal\<close>, the quotient rounded first and the product
  after it. It is the integer part of the exact product or one less, and it differs from
  the exact product by at most one pixel.
\<close>

theorem derived_dimension_within_one_pixel:
  assumes "0 < orig_width" and "0 < orig_height" and "orig_width * orig_height < 2 ^ 50"
    and "1 \<le> size'" and "\<not> exceeds_original dimension (orig_width, orig_height) size'"
  defines "con \<equiv> (if dimension = ''width'' then orig_width else orig_height)"
    and "orth \<equiv> (if dimension = ''width'' then orig_height else orig_width)"
  defines "derived \<equiv> \<lfloor>fl (fl (of_int size' / of_int con) * of_int orth)\<rfloor>"
    and "exact \<equiv> (of_int (size' * orth) / of_int con :: rat)"
  shows "new_dimensions dimension orig_width orig_height size'
           = Inr (if dimension = ''width'' then Dims size' derived else Dims derived size')
       \<and> (derived = \<lfloor>exact\<rfloor> \<or> derived = \<lfloor>exact\<rfloor> - 1)
       \<and> \<bar>of_int derived - exact\<bar> \<le> 1"
proof -
  have le: "size' \<le> con"
    using assms(5) by (auto simp: exceeds_original_def con_def split: if_splits)
  have orth: "1 \<le> orth" using assms(1,2) by (simp add: orth_def)
  have "con * orth = orig_width * orig_height" by (simp add: con_def orth_def)
  then have small: "con * orth < 2 ^ 50" using assms(3) by simp
  note d = derived_of_scaled [OF assms(4) le orth small]
  have "new_dimensions dimension orig_width orig_height size'
      = Inr (if dimension = ''width'' then Dims size' derived else Dims derived size')"
  proof (cases "dimension = ''width''")
    case True
    then show ?thesis using d(1) assms(5)
      by (simp add: new_dimensions_def exceeds_original_def con_def orth_def derived_def)
  next
    case False
    then show ?thesis using d(1) assms(5)
      by (simp add: new_dimensions_def exceeds_original_def con_def orth_def derived_def)
  qed
  then show ?thesis using d(2,3) unfolding derived_def exact_def by blast
qed

lemma fl_540: "fl 540 = 540"
  using fl_of_int [of 540] by simp

theorem derived_dimension_within_one_pixel_witness:
  "(0::int) < 1920 \<and> (0::int) < 1080 \<and> (1920::int) * 1080 < 2 ^ 50 \<and> (1::int) \<le> 960
   \<and> \<not> exceeds_original ''width'' (1920, 1080) 960
   \<and> new_dimensions ''width'' 1920 1080 960 = Inr (Dims 960 540)
   \<and> \<lfloor>fl (fl (of_int 960 / of_int 1920) * of_int 1080)\<rfloor> = 540
   \<and> \<lfloor>of_int (960 * 1080) / of_int 1920 :: rat\<rfloor> = 540"
  using derived_dimension_within_one_pixel [of 1920 1080 960 "''width''"]
  by (simp add: exceeds_original_def fl_half fl_540)

text \<open>
  As written, the claim has the derived dimension equal to the integer part of the
  exact product, and the deviation strictly below one pixel. For a target width of 57
  on a 100 by 100 original the code computes \<open>int(56.99999999999999)\<close>, a height of 56,
  where the exact product is 57: the deviation is a whole pixel.
\<close>

theorem derived_dimension_off_by_one:
  "\<not> exceeds_original ''width'' (100, 100) 57
   \<and> new_dimensions ''width'' 100 100 57 = Inr (Dims 57 56)
   \<and> \<lfloor>of_int (57 * 100) / of_int 100 :: rat\<rfloor> = 57
   \<and> \<not> \<bar>of_int 56 - of_int (57 * 100) / of_int 100 :: rat\<bar> < 1"
  by (simp add: new_dimensions_def exceeds_original_def scaled_57_100)

text \<open>
  Claim C1. For every target that does not exceed the original, both computed
  dimensions are at least 1. The code does not keep this: a target width of 1 on a
  1920 by 1080 original does not exceed the original, the computed height is
  \<open>int(0.5625) = 0\<close>, and the library refuses to resize to it, so the call ends with a
  \<open>ValueError\<close>.
\<close>

theorem zero_height_from_feasible_target:
  "\<not> exceeds_original ''width'' (1920, 1080) 1
   \<and> new_dimensions ''width'' 1920 1080 1 = Inr (Dims 1 0)
   \<and> fst (resize_image (studio 1920 1080 ''RGB'') photo ''out'' [1] ''width'' 90 empty_world)
       = Raised ValueError"
  by (simp add: run_defs exceeds_original_def scaled_1_1920)

text \<open>
  Where the bound does hold: the dimension on the chosen axis is the target itself,
  and the derived dimension is at least 1 whenever the exact product is at least 2.
\<close>

lemma output_dimensions_lower_bound:
  assumes "0 < orig_width" and "0 < orig_height" and "orig_width * orig_height < 2 ^ 50"
    and "1 \<le> size'" and "\<not> exceeds_original dimension (orig_width, orig_height) size'"
  defines "con \<equiv> (if dimension = ''width'' then orig_width else orig_height)"
    and "orth \<equiv> (if dimension = ''width'' then orig_height else orig_width)"
  shows "\<exists>new_width new_height.
           new_dimensions dimension orig_width orig_height size'
             = Inr (Dims new_width new_height)
           \<and> (if dimension = ''width'' then new_width else new_height) = size'
           \<and> 0 \<le> new_width \<and> 0 \<le> new_height
           \<and> (2 * con \<le> size' * orth \<longrightarrow> 1 \<le> new_width \<and> 1 \<le> new_height)"
proof -
  define derived where "derived = \<lfloor>fl (fl (of_int size' / of_int con) * of_int orth)\<rfloor>"
  define exact :: rat where "exact = of_int (size' * orth) / of_int con"
  have le: "size' \<le> con"
    using assms(5) by (auto simp: exceeds_original_def con_def split: if_splits)
  have orth: "1 \<le> orth" using assms(1,2) by (simp add: orth_def)
  have con: "0 < con" using assms(4) le by linarith
  have "con * orth = orig_width * orig_height" by (simp add: con_def orth_def)
  then have small: "con * orth < 2 ^ 50" using assms(3) by simp
  note d = derived_of_scaled [OF assms(4) le orth small, folded derived_def exact_def]
  have "0 < size' * orth" using assms(4) orth by simp
  then have "(0::rat) < of_int (size' * orth)" by (simp only: of_int_0_less_iff)
  then have "0 < exact" using con by (simp add: exact_def)
  then have "- 1 < (of_int derived :: rat)" using d(3) by linarith
  then have "(of_int (- 1) :: rat) < of_int derived" by simp
  then have "- 1 < derived" by (simp only: of_int_less_iff)
  then have nonneg: "0 \<le> derived" by simp
  have big: "1 \<le> derived" if "2 * con \<le> size' * orth"
  proof -
    have "(of_int (2 * con) :: rat) \<le> of_int (size' * orth)"
      using that by (simp only: of_int_le_iff)
    then have "2 \<le> exact" using con by (simp add: exact_def pos_le_divide_eq)
    then have "2 \<le> \<lfloor>exact\<rfloor>" by (simp add: le_floor_iff)
    then show ?thesis using d(2) by linarith
  qed
  show ?thesis
  proof (cases "dimension = ''width''")
    case True
    then have "new_dimensions dimension orig_width orig_height size' = Inr (Dims size' derived)"
      using d(1) assms(5)
      by (simp add: new_dimensions_def exceeds_original_def con_def orth_def)
    then show ?thesis using True nonneg big assms(4) by auto
  next
    case False
    then have "new_dimensions dimension orig_width orig_height size' = Inr (Dims derived size')"
      using d(1) assms(5)
      by (simp add: new_dimensions_def exceeds_original_def con_def orth_def)
    then show ?thesis using False nonneg big assms(4) by auto
  qed
qed

lemma output_dimensions_lower_bound_example:
  "(0::int) < 1920 \<and> (0::int) < 1080 \<and> (1920::int) * 1080 < 2 ^ 50 \<and> (1::int) \<le> 960
   \<and> \<not> exceeds_original ''width'' (1920, 1080) 960
   \<and> (2::int) * 1920 \<le> 960 * 1080
   \<and> (\<exists>new_width new_height.
          new_dimensions ''width'' 1920 1080 960 = Inr (Dims new_width new_height)
          \<and> new_width = 960 \<and> 1 \<le> new_height)"
  using output_dimensions_lower_bound [of 1920 1080 960 "''width''"]
  by (auto simp: exceeds_original_def)

section \<open>The conversion to RGB\<close>

text \<open>
  Claim C8. Whatever the mode of the resized image, the conversion gives an image of
  mode RGB and of the same size. For the modes RGBA and LA the image is pasted onto a
  white RGB background with its last band, the alpha channel, as the mask; a palette
  image (mode P) is first converted to RGBA and then pasted the same way. Every other
  mode that is not RGB is converted to RGB, and an RGB image is left as it is.
\<close>

theorem flatten_to_rgb_result:
  "im_mode (flatten_to_rgb im) = ''RGB''
   \<and> im_size (flatten_to_rgb im) = im_size im
   \<and> (im_mode im = ''RGBA'' \<or> im_mode im = ''LA'' \<longrightarrow>
        flatten_to_rgb im
          = paste (Image_new ''RGB'' (im_size im) (255, 255, 255)) im (Some (last_band im)))
   \<and> (im_mode im = ''P'' \<longrightarrow>
        flatten_to_rgb im
          = paste (Image_new ''RGB'' (im_size im) (255, 255, 255)) (convert im ''RGBA'')
              (Some (last_band (convert im ''RGBA''))))
   \<and> (im_mode im \<notin> {''RGBA'', ''LA'', ''P'', ''RGB''} \<longrightarrow>
        flatten_to_rgb im = convert im ''RGB'')
   \<and> (im_mode im = ''RGB'' \<longrightarrow> flatten_to_rgb im = im)"
  by (simp add: flatten_to_rgb_def Image_new_def convert_def paste_def last_band_def Let_def)

theorem flatten_to_rgb_result_witness:
  "im_mode (shot ''RGBA'') = ''RGBA''
   \<and> flatten_to_rgb (shot ''RGBA'')
       = \<lparr>im_mode = ''RGB'', im_size = (400, 300),
          im_data = Pasted (Solid (255, 255, 255)) (im_data (shot ''RGBA''))
                      (Some (Band (im_data (shot ''RGBA''))))\<rparr>
   \<and> im_mode (shot ''P'') = ''P''
   \<and> flatten_to_rgb (shot ''P'')
       = \<lparr>im_mode = ''RGB'', im_size = (400, 300),
          im_data = Pasted (Solid (255, 255, 255)) (Converted (im_data (shot ''P'')) ''RGBA'')
                      (Some (Band (Converted (im_data (shot ''P'')) ''RGBA'')))\<rparr>
   \<and> im_mode (shot ''CMYK'') \<notin> {''RGBA'', ''LA'', ''P'', ''RGB''}
   \<and> flatten_to_rgb (shot ''CMYK'')
       = \<lparr>im_mode = ''RGB'', im_size = (400, 300),
          im_data = Converted (im_data (shot ''CMYK'')) ''RGB''\<rparr>
   \<and> im_mode (shot ''RGB'') = ''RGB''
   \<and> flatten_to_rgb (shot ''RGB'') = shot ''RGB''"
  using flatten_to_rgb_result [of "shot ''RGBA''"] flatten_to_rgb_result [of "shot ''P''"]
    flatten_to_rgb_result [of "shot ''CMYK''"] flatten_to_rgb_result [of "shot ''RGB''"]
  by (simp add: shot_def Image_new_def convert_def paste_def last_band_def)

section \<open>Decode failure, the console and the process\<close>

lemma str_10000: "str_int 10000 = ''10000''"
  by (simp add: str_int_def str_nat.simps digit_char_def)

lemma vast_run:
  "resize_image vast_studio photo ''out'' [20000] ''width'' 90 empty_world
   = (Returned ([], [(20000, ''original is only 10000px wide'')]),
      \<lparr>w_stderr =
         [''DecompressionBombWarning: Image size (90000000 pixels) exceeds limit of ''
            @ ''89478485 pixels, could be decompression bomb DOS attack.'',
          ''  warnings.warn(''],
       w_dirs = [''out''], w_files = []\<rparr>)"
  by (simp add: resize_image_def vast_studio_def photo_def empty_world_def mkdir_def
      library_prints_def new_dimensions_def str_10000 Let_def)

text \<open>
  Claim C7. When the input cannot be opened, \<open>resize_image\<close> prints two lines on standard
  error, after whatever the library printed while it tried, and ends the process with
  status 4, before the output directory is made and before any target is processed.
  When the input opens, the call never ends the process: it returns the pair of lists,
  or an exception propagates to the caller.
\<close>

theorem decode_failure_exits_process:
  "(image_open e input_path = Inl details \<longrightarrow>
      resize_image e input_path output_dir sizes dimension quality w
        = (Exited 4,
           w\<lparr>w_stderr := w_stderr w @ open_stderr e input_path
                            @ [''Error: Cannot read image: '' @ path_str input_path,
                               ''Details: '' @ details]\<rparr>))
   \<and> (image_open e input_path = Inr img \<longrightarrow>
        (\<forall>status. fst (resize_image e input_path output_dir sizes dimension quality w)
               \<noteq> Exited status)
        \<and> ((\<exists>created skipped.
               fst (resize_image e input_path output_dir sizes dimension quality w)
                 = Returned (created, skipped))
           \<or> (\<exists>x. fst (resize_image e input_path output_dir sizes dimension quality w)
                    = Raised x)))"
proof (intro conjI impI)
  assume "image_open e input_path = Inl details"
  then show "resize_image e input_path output_dir sizes dimension quality w
        = (Exited 4,
           w\<lparr>w_stderr := w_stderr w @ open_stderr e input_path
                            @ [''Error: Cannot read image: '' @ path_str input_path,
                               ''Details: '' @ details]\<rparr>)"
    by (simp add: resize_image_def print_stderr_def library_prints_def)
next
  assume op: "image_open e input_path = Inr img"
  define l where "l = \<lparr>l_img = img, l_orig_width = fst (im_size img),
      l_orig_height = snd (im_size img), l_output_dir = output_dir,
      l_base_name = stem input_path, l_extension = suffix input_path,
      l_dimension = dimension, l_quality = quality\<rparr>"
  define w0 where "w0 = mkdir output_dir (library_prints (open_stderr e input_path) w)"
  have r: "resize_image e input_path output_dir sizes dimension quality w
      = (case process_sizes e l sizes ([], []) w0 of
           Inl (x, w') \<Rightarrow> (Raised x, w') | Inr (res, w') \<Rightarrow> (Returned res, w'))"
    by (simp add: resize_image_def op l_def w0_def Let_def)
  show "\<forall>status. fst (resize_image e input_path output_dir sizes dimension quality w)
               \<noteq> Exited status"
    unfolding r by (cases "process_sizes e l sizes ([], []) w0") auto
  show "(\<exists>created skipped.
               fst (resize_image e input_path output_dir sizes dimension quality w)
                 = Returned (created, skipped))
           \<or> (\<exists>x. fst (resize_image e input_path output_dir sizes dimension quality w)
                    = Raised x)"
    unfolding r by (cases "process_sizes e l sizes ([], []) w0") auto
qed

theorem decode_failure_exits_process_witness:
  "image_open unreadable photo = Inl ''cannot identify image file''
   \<and> resize_image unreadable photo ''out'' [960] ''width'' 90 empty_world
       = (Exited 4,
          \<lparr>w_stderr = [''Error: Cannot read image: photo.jpg'',
                       ''Details: cannot identify image file''],
           w_dirs = [], w_files = []\<rparr>)
   \<and> image_open vast_studio photo
       = Inr \<lparr>im_mode = ''RGB'', im_size = (10000, 9000), im_data = Source ''photo.jpg''\<rparr>
   \<and> fst (resize_image vast_studio photo ''out'' [20000] ''width'' 90 empty_world)
       = Returned ([], [(20000, ''original is only 10000px wide'')])
   \<and> fst (resize_image vast_studio photo ''out'' [20000] ''width'' 90 empty_world) \<noteq> Exited 4"
proof -
  have bad: "image_open unreadable photo = Inl ''cannot identify image file''"
    by (simp add: unreadable_def)
  have op: "image_open vast_studio photo
      = Inr \<lparr>im_mode = ''RGB'', im_size = (10000, 9000), im_data = Source ''photo.jpg''\<rparr>"
    by (simp add: vast_studio_def photo_def)
  note t1 = decode_failure_exits_process
    [where e = unreadable and input_path = photo and details = "''cannot identify image file''"
      and output_dir = "''out''" and sizes = "[960]" and dimension = "''width''"
      and quality = 90 and w = empty_world and img = "shot ''RGB''"]
  note t2 = decode_failure_exits_process
    [where e = vast_studio and input_path = photo and details = "[]"
      and output_dir = "''out''" and sizes = "[20000]" and dimension = "''width''"
      and quality = 90 and w = empty_world
      and img = "\<lparr>im_mode = ''RGB'', im_size = (10000, 9000),
                  im_data = Source ''photo.jpg''\<rparr>"]
  have exit: "resize_image unreadable photo ''out'' [960] ''width'' 90 empty_world
       = (Exited 4,
          \<lparr>w_stderr = [''Error: Cannot read image: photo.jpg'',
                       ''Details: cannot identify image file''],
           w_dirs = [], w_files = []\<rparr>)"
    using conjunct1 [OF t1] bad by (simp add: unreadable_def photo_def empty_world_def)
  have "fst (resize_image vast_studio photo ''out'' [20000] ''width'' 90 empty_world) \<noteq> Exited 4"
    using conjunct2 [OF t2] op by simp
  then show ?thesis using bad exit op by (simp add: vast_run)
qed

text \<open>
  As written, the claim says that the function never ends the process and never
  writes to a console. On an unreadable input it does both.
\<close>

theorem decode_failure_counterexample:
  "resize_image unreadable photo ''out'' [960] ''width'' 90 empty_world
   = (Exited 4,
      \<lparr>w_stderr = [''Error: Cannot read image: photo.jpg'',
                   ''Details: cannot identify image file''],
       w_dirs = [], w_files = []\<rparr>)"
  by (simp add: resize_image_def unreadable_def photo_def empty_world_def print_stderr_def
      library_prints_def)

section \<open>Sizes that are not positive\<close>

lemma parse_sizes_cases:
  "parse_sizes int_of_str size_str =
     (case parse_all int_of_str (split_on CHR '','' size_str) of
        Inl msg \<Rightarrow> Inl (ArgumentTypeError (''Invalid size format: '' @ msg))
      | Inr sizes \<Rightarrow>
          if \<exists>s \<in> set sizes. s \<le> 0
          then Inl (ArgumentTypeError ''Invalid size format: Sizes must be positive integers'')
          else Inr sizes)"
  by (simp add: parse_sizes_def list_ex_iff split: sum.splits)

text \<open>
  Claim C6. A size that is not positive is rejected by \<open>parse_sizes\<close>, which the command
  line layer runs before \<open>resize_image\<close>: when every piece of the text reads as an
  integer and one of them is zero or negative, the whole text is refused with an
  \<open>ArgumentTypeError\<close>, and a list that \<open>parse_sizes\<close> returns holds positive sizes only.
\<close>

theorem parse_sizes_rejects_nonpositive:
  "(parse_sizes int_of_str size_str = Inr sizes \<longrightarrow> (\<forall>s \<in> set sizes. 0 < s))
   \<and> (parse_all int_of_str (split_on CHR '','' size_str) = Inr sizes
        \<and> (\<exists>s \<in> set sizes. s \<le> 0) \<longrightarrow>
        parse_sizes int_of_str size_str
          = Inl (ArgumentTypeError ''Invalid size format: Sizes must be positive integers''))"
  by (auto simp: parse_sizes_cases split: sum.splits if_splits)

lemma nat_of_digits_300: "nat_of_digits ''300'' = 300"
  by (simp add: nat_of_digits_def digit_val_def)

lemma nat_of_digits_600: "nat_of_digits ''600'' = 600"
  by (simp add: nat_of_digits_def digit_val_def)

lemma nat_of_digits_0: "nat_of_digits ''0'' = 0"
  by (simp add: nat_of_digits_def digit_val_def)

lemma parse_all_300_600:
  "parse_all decimal_literal (split_on CHR '','' ''300, 600'') = Inr [300, 600]"
  by (simp add: decimal_literal_def strip_def is_space_def is_digit_def
      nat_of_digits_300 nat_of_digits_600)

lemma parse_all_300_0:
  "parse_all decimal_literal (split_on CHR '','' ''300,0'') = Inr [300, 0]"
  by (simp add: decimal_literal_def strip_def is_space_def is_digit_def
      nat_of_digits_300 nat_of_digits_0)

theorem parse_sizes_rejects_nonpositive_witness:
  "parse_sizes decimal_literal ''300, 600'' = Inr [300, 600]
   \<and> list_all (\<lambda>s. 0 < s) [300, 600 :: int]
   \<and> parse_all decimal_literal (split_on CHR '','' ''300,0'') = Inr [300, 0]
   \<and> list_ex (\<lambda>s. s \<le> 0) [300, 0 :: int]
   \<and> parse_sizes decimal_literal ''300,0''
       = Inl (ArgumentTypeError ''Invalid size format: Sizes must be positive integers'')"
proof -
  have ok: "parse_sizes decimal_literal ''300, 600'' = Inr [300, 600]"
    unfolding parse_sizes_def parse_all_300_600 by simp
  show ?thesis
    using parse_sizes_rejects_nonpositive [of decimal_literal "''300, 600''" "[300, 600]"]
      parse_sizes_rejects_nonpositive [of decimal_literal "''300,0''" "[300, 0]"]
      ok parse_all_300_0
    by simp
qed

text \<open>
  As written, the claim is about \<open>resize_image\<close>, which checks nothing: given the sizes
  100 and 0 it resizes and saves the variant for 100, and fails only inside the
  library call for the size 0.
\<close>

lemma fl_zero: "fl 0 = 0"
  by (simp add: fl_def)

lemma scaled_0: "scaled 0 200 100 = Inr 0"
  using scaled_eval [of 200 0 0 100 0] by (simp add: fl_zero)

theorem nonpositive_size_counterexample:
  "resize_image (studio 200 100 ''RGB'') photo ''out'' [100, 0] ''width'' 90 empty_world
   = (Raised ValueError,
      \<lparr>w_stderr = [], w_dirs = [''out''],
       w_files = [(''out'', ''photo_100.jpg'',
                   \<lparr>im_mode = ''RGB'', im_size = (100, 50),
                    im_data = Resampled (Source ''photo.jpg'') 100 50 ''LANCZOS''\<rparr>, 90)]\<rparr>)"
  by (simp add: run_defs scaled_100 scaled_0 str_100 kb_2048 [unfolded studio_def])

end
